theory Spec2Isabelle
  imports Main "HOL-Library.Sublist"
begin

section \<open>Strings and the string primitives the server uses\<close>

text \<open>
  A JavaScript string is a sequence of code units. It is modelled as a \<^typ>\<open>string\<close>, each
  \<^typ>\<open>char\<close> standing for the code unit of the same number (U+0000 to U+00FF).

  A page number is a natural number. The code holds it as a Number, a double: the two are
  the same below \<open>2^53\<close>, the range of the safe integers. From \<open>2^53\<close> on \<open>parseInt\<close> rounds
  (the digits \<open>9007199254740993\<close> give 9007199254740992, a run of 400 digits gives
  \<open>Infinity\<close>), and from \<open>10^21\<close> on a Number is printed in exponent form. Neither is
  followed here: \<open>parseInt\<close> and \<open>showNat\<close> are the code on the safe integers only, and
  the theorem on the page numbers of a text carries that bound (\<open>exactMarkers\<close>).
\<close>

definition isDigit :: "char \<Rightarrow> bool" where
  \<comment> \<open>the class \<open>\d\<close>\<close>
  "isDigit c = (c \<in> set ''0123456789'')"

definition isWordChar :: "char \<Rightarrow> bool" where
  \<comment> \<open>the class \<open>\w\<close>\<close>
  "isWordChar c =
     (c \<in> set ''ABCDEFGHIJKLMNOPQRSTUVWXYZabcdefghijklmnopqrstuvwxyz0123456789_'')"

definition isSpace :: "char \<Rightarrow> bool" where
  \<comment> \<open>the class \<open>\s\<close>, also what \<open>trim\<close> strips: tab, line feed, vertical tab, form feed,
      carriage return, space, no-break space\<close>
  "isSpace c = (c \<in> {CHR 0x09, CHR 0x0A, CHR 0x0B, CHR 0x0C, CHR 0x0D, CHR '' '', CHR 0xA0})"

definition upperLetters :: string where
  \<comment> \<open>the code units below 256 that \<open>toLowerCase\<close> changes: \<open>A\<close> to \<open>Z\<close> and the
      accented capitals U+00C0 to U+00DE without the sign U+00D7\<close>
  "upperLetters = ''ABCDEFGHIJKLMNOPQRSTUVWXYZ'' @
     [CHR 0xC0, CHR 0xC1, CHR 0xC2, CHR 0xC3, CHR 0xC4, CHR 0xC5, CHR 0xC6,
      CHR 0xC7, CHR 0xC8, CHR 0xC9, CHR 0xCA, CHR 0xCB, CHR 0xCC, CHR 0xCD,
      CHR 0xCE, CHR 0xCF, CHR 0xD0, CHR 0xD1, CHR 0xD2, CHR 0xD3, CHR 0xD4,
      CHR 0xD5, CHR 0xD6, CHR 0xD8, CHR 0xD9, CHR 0xDA, CHR 0xDB, CHR 0xDC,
      CHR 0xDD, CHR 0xDE]"

definition lowerLetters :: string where
  \<comment> \<open>their lower-case forms, 32 code units higher\<close>
  "lowerLetters = ''abcdefghijklmnopqrstuvwxyz'' @
     [CHR 0xE0, CHR 0xE1, CHR 0xE2, CHR 0xE3, CHR 0xE4, CHR 0xE5, CHR 0xE6,
      CHR 0xE7, CHR 0xE8, CHR 0xE9, CHR 0xEA, CHR 0xEB, CHR 0xEC, CHR 0xED,
      CHR 0xEE, CHR 0xEF, CHR 0xF0, CHR 0xF1, CHR 0xF2, CHR 0xF3, CHR 0xF4,
      CHR 0xF5, CHR 0xF6, CHR 0xF8, CHR 0xF9, CHR 0xFA, CHR 0xFB, CHR 0xFC,
      CHR 0xFD, CHR 0xFE]"

definition lowerChar :: "char \<Rightarrow> char" where
  "lowerChar c =
     (case map_of (zip upperLetters lowerLetters) c of Some l \<Rightarrow> l | None \<Rightarrow> c)"

definition toLowerCase :: "string \<Rightarrow> string" where
  "toLowerCase s = map lowerChar s"

definition trim :: "string \<Rightarrow> string" where
  "trim s = rev (dropWhile isSpace (rev (dropWhile isSpace s)))"

fun startsWith :: "string \<Rightarrow> string \<Rightarrow> bool" where
  \<comment> \<open>\<open>s.startsWith(p)\<close>\<close>
  "startsWith s [] = True"
| "startsWith [] (p # ps) = False"
| "startsWith (c # cs) (p # ps) = (c = p \<and> startsWith cs ps)"

fun includesStr :: "string \<Rightarrow> string \<Rightarrow> bool" where
  \<comment> \<open>\<open>s.includes(p)\<close>\<close>
  "includesStr [] p = (p = [])"
| "includesStr (c # cs) p = (startsWith (c # cs) p \<or> includesStr cs p)"

fun join :: "string \<Rightarrow> string list \<Rightarrow> string" where
  \<comment> \<open>\<open>xs.join(sep)\<close>\<close>
  "join sep [] = []"
| "join sep [x] = x"
| "join sep (x # y # ys) = x @ sep @ join sep (y # ys)"

definition digitVal :: "char \<Rightarrow> nat" where
  "digitVal c = of_char c - 48"

definition parseInt :: "string \<Rightarrow> nat" where
  \<comment> \<open>the integer that a non-empty run of decimal digits denotes; it is the Number that
      \<open>parseInt\<close> returns when it is below \<open>2^53\<close>\<close>
  "parseInt ds = foldl (\<lambda>n c. 10 * n + digitVal c) 0 ds"

definition digitChar :: "nat \<Rightarrow> char" where
  "digitChar n = ''0123456789'' ! n"

fun showNat :: "nat \<Rightarrow> string" where
  \<comment> \<open>the decimal text of a number; \<open>join\<close> and a template literal print a Number below
      \<open>10^21\<close>, so every safe integer, in this way\<close>
  "showNat n = (if n < 10 then [digitChar n] else showNat (n div 10) @ [digitChar (n mod 10)])"

declare showNat.simps [simp del]

section \<open>Sorting with a comparator\<close>

text \<open>
  \<open>Array.prototype.sort\<close> is a stable sort. With a comparator that orders by a key, every
  stable sort returns the same array; it is modelled by insertion, where an element is put
  in front of the first element that the comparator does not place before it.
\<close>

fun insortCmp :: "('a \<Rightarrow> 'a \<Rightarrow> int) \<Rightarrow> 'a \<Rightarrow> 'a list \<Rightarrow> 'a list" where
  "insortCmp cmp x [] = [x]"
| "insortCmp cmp x (y # ys) =
     (if cmp x y \<le> 0 then x # y # ys else y # insortCmp cmp x ys)"

definition sortCmp :: "('a \<Rightarrow> 'a \<Rightarrow> int) \<Rightarrow> 'a list \<Rightarrow> 'a list" where
  "sortCmp cmp xs = foldr (insortCmp cmp) xs []"

section \<open>The page-reference extractor\<close>

text \<open>
  \<open>matchPageMarker s\<close> is the regular expression \<open>\[Page (\d+)\]\<close> tried at the head of
  \<open>s\<close>: the captured digits and the text after the match. The digit run is greedy, and a
  shorter run can never be followed by \<open>]\<close>, so the match exists exactly when the longest
  run is not empty and a \<open>]\<close> follows it.
\<close>

definition matchPageMarker :: "string \<Rightarrow> (string \<times> string) option" where
  "matchPageMarker s =
     (if startsWith s ''[Page ''
      then (let t = drop 6 s; ds = takeWhile isDigit t; r = dropWhile isDigit t
            in if ds \<noteq> [] \<and> startsWith r '']'' then Some (ds, drop 1 r) else None)
      else None)"

text \<open>
  The loop \<open>while ((match = pageRegex.exec(content)) !== null)\<close> with the global flag:
  each search starts where the last match ended and finds the leftmost match.
\<close>

function pageMatches :: "string \<Rightarrow> nat list" where
  "pageMatches [] = []"
| "pageMatches (c # cs) =
     (case matchPageMarker (c # cs) of
        Some m \<Rightarrow> parseInt (fst m) # pageMatches (snd m)
      | None \<Rightarrow> pageMatches cs)"
  by pat_completeness auto
termination
proof (relation "measure length")
  show "wf (measure length)" by simp
next
  fix c cs m
  assume a: "matchPageMarker (c # cs) = Some m"
  then have "startsWith (c # cs) ''[Page ''"
    by (simp add: matchPageMarker_def split: if_splits)
  with a have "snd m = drop 1 (dropWhile isDigit (drop 6 (c # cs)))"
    by (auto simp add: matchPageMarker_def Let_def split: if_splits)
  moreover have "length (dropWhile isDigit (drop 6 (c # cs))) \<le> length (drop 6 (c # cs))"
    by (rule length_dropWhile_le)
  ultimately have "length (snd m) < length (c # cs)" by simp
  then show "(snd m, c # cs) \<in> measure length" by simp
next
  fix c cs
  show "(cs, c # cs) \<in> measure length" by simp
qed

definition newSet :: "'a list \<Rightarrow> 'a list" where
  \<comment> \<open>\<open>[...new Set(xs)]\<close>: the values in the order of their first occurrence\<close>
  "newSet xs = foldl (\<lambda>acc x. if x \<in> set acc then acc else acc @ [x]) [] xs"

definition extractPageNumbers :: "string \<Rightarrow> nat list" where
  "extractPageNumbers content =
     sortCmp (\<lambda>a b. int a - int b) (newSet (pageMatches content))"

section \<open>The context cleaner\<close>

text \<open>
  Every step of \<open>cleanContext\<close> is one \<open>replace\<close> with a global pattern: the text is read
  from left to right, a match is replaced and the reading goes on after it, and a
  character where no match starts is kept.
\<close>

function removePageMarkers :: "string \<Rightarrow> string" where
  \<comment> \<open>\<open>.replace(/\[Page \d+\]/g, '')\<close>\<close>
  "removePageMarkers [] = []"
| "removePageMarkers (c # cs) =
     (case matchPageMarker (c # cs) of
        Some m \<Rightarrow> removePageMarkers (snd m)
      | None \<Rightarrow> c # removePageMarkers cs)"
  by pat_completeness auto
termination
proof (relation "measure length")
  show "wf (measure length)" by simp
next
  fix c cs m
  assume a: "matchPageMarker (c # cs) = Some m"
  then have "startsWith (c # cs) ''[Page ''"
    by (simp add: matchPageMarker_def split: if_splits)
  with a have "snd m = drop 1 (dropWhile isDigit (drop 6 (c # cs)))"
    by (auto simp add: matchPageMarker_def Let_def split: if_splits)
  moreover have "length (dropWhile isDigit (drop 6 (c # cs))) \<le> length (drop 6 (c # cs))"
    by (rule length_dropWhile_le)
  ultimately have "length (snd m) < length (c # cs)" by simp
  then show "(snd m, c # cs) \<in> measure length" by simp
next
  fix c cs
  show "(cs, c # cs) \<in> measure length" by simp
qed

definition isDot :: "char \<Rightarrow> bool" where
  "isDot c = (c = CHR ''.'')"

function removeDotRuns :: "string \<Rightarrow> string" where
  \<comment> \<open>\<open>.replace(/\.{10,}/g, '')\<close>: a run of ten or more dots goes as a whole\<close>
  "removeDotRuns [] = []"
| "removeDotRuns (c # cs) =
     (if 10 \<le> length (takeWhile isDot (c # cs))
      then removeDotRuns (dropWhile isDot (c # cs))
      else c # removeDotRuns cs)"
  by pat_completeness auto
termination
proof (relation "measure length")
  show "wf (measure length)" by simp
next
  fix c cs
  assume "10 \<le> length (takeWhile isDot (c # cs))"
  moreover have "length (takeWhile isDot (c # cs)) + length (dropWhile isDot (c # cs))
      = length (c # cs)"
    by (simp only: length_append [symmetric] takeWhile_dropWhile_id)
  ultimately have "length (dropWhile isDot (c # cs)) < length (c # cs)" by linarith
  then show "(dropWhile isDot (c # cs), c # cs) \<in> measure length" by simp
next
  fix c cs
  show "(cs, c # cs) \<in> measure length" by simp
qed

function collapseWhitespace :: "string \<Rightarrow> string" where
  \<comment> \<open>\<open>.replace(/\s+/g, ' ')\<close>\<close>
  "collapseWhitespace [] = []"
| "collapseWhitespace (c # cs) =
     (if isSpace c then CHR '' '' # collapseWhitespace (dropWhile isSpace cs)
      else c # collapseWhitespace cs)"
  by pat_completeness auto
termination
proof (relation "measure length")
  show "wf (measure length)" by simp
next
  fix c cs
  have "length (dropWhile isSpace cs) \<le> length cs" by (rule length_dropWhile_le)
  then show "(dropWhile isSpace cs, c # cs) \<in> measure length" by simp
next
  fix c cs
  show "(cs, c # cs) \<in> measure length" by simp
qed

function removeUndefined :: "string \<Rightarrow> string" where
  \<comment> \<open>\<open>.replace(/undefined/g, '')\<close>\<close>
  "removeUndefined [] = []"
| "removeUndefined (c # cs) =
     (if startsWith (c # cs) ''undefined'' then removeUndefined (drop 9 (c # cs))
      else c # removeUndefined cs)"
  by pat_completeness auto
termination
  by (relation "measure length") auto

definition isKept :: "char \<Rightarrow> bool" where
  \<comment> \<open>the complement of the class \<open>[^\w\s.,!?;:'"-]\<close>\<close>
  "isKept c = (isWordChar c \<or> isSpace c \<or>
     c \<in> {CHR ''.'', CHR '','', CHR ''!'', CHR ''?'', CHR '';'', CHR '':'',
          CHR 0x27, CHR 0x22, CHR ''-''})"

definition cleanContext :: "string \<Rightarrow> string" where
  "cleanContext content =
     trim (filter isKept (removeUndefined (collapseWhitespace (removeDotRuns
       (removePageMarkers content)))))"

section \<open>The relevance ranker\<close>

fun splitOn :: "(char \<Rightarrow> bool) \<Rightarrow> string \<Rightarrow> string list" where
  \<comment> \<open>\<open>s.split(re)\<close> for a pattern that matches one character of a class\<close>
  "splitOn P [] = [[]]"
| "splitOn P (c # cs) =
     (if P c then [] # splitOn P cs
      else (case splitOn P cs of [] \<Rightarrow> [[c]] | w # ws \<Rightarrow> (c # w) # ws))"

function splitSpaces :: "string \<Rightarrow> string list" where
  \<comment> \<open>\<open>s.split(/\s+/)\<close>\<close>
  "splitSpaces [] = [[]]"
| "splitSpaces (c # cs) =
     (if isSpace c then [] # splitSpaces (dropWhile isSpace cs)
      else (case splitSpaces cs of [] \<Rightarrow> [[c]] | w # ws \<Rightarrow> (c # w) # ws))"
  by pat_completeness auto
termination
proof (relation "measure length")
  show "wf (measure length)" by simp
next
  fix c cs
  have "length (dropWhile isSpace cs) \<le> length cs" by (rule length_dropWhile_le)
  then show "(dropWhile isSpace cs, c # cs) \<in> measure length" by simp
next
  fix c cs
  show "(cs, c # cs) \<in> measure length" by simp
qed

definition isTerminal :: "char \<Rightarrow> bool" where
  \<comment> \<open>the class \<open>[.!?]\<close>\<close>
  "isTerminal c = (c \<in> {CHR ''.'', CHR ''!'', CHR ''?''})"

record scoredSentence =
  sentence :: string
  score :: int

definition sentencesOf :: "string \<Rightarrow> string list" where
  \<comment> \<open>\<open>content.split(/[.!?]/).filter(s => s.trim().length > 10)\<close>\<close>
  "sentencesOf content = filter (\<lambda>s. length (trim s) > 10) (splitOn isTerminal content)"

definition queryKeywordsOf :: "string \<Rightarrow> string list" where
  "queryKeywordsOf query = splitSpaces (toLowerCase query)"

text \<open>The scoring callback of \<open>src/server/server.js\<close>; \<open>score\<close> is its mutable local.\<close>

definition scoreSentence :: "string \<Rightarrow> string \<Rightarrow> string \<Rightarrow> scoredSentence" where
  "scoreSentence query pdfType s =
     (let lowerSentence = toLowerCase s;
          score0 = (0 :: int);
          score1 = foldl (\<lambda>sc keyword.
                      if length keyword > 3 \<and> includesStr lowerSentence keyword
                      then sc + 3 else sc) score0 (queryKeywordsOf query);
          score2 = (if includesStr lowerSentence (toLowerCase query)
                    then score1 + 10 else score1);
          score3 = (if startsWith lowerSentence (toLowerCase query @ '' is'') \<or>
                       startsWith lowerSentence (toLowerCase query @ '' are'') \<or>
                       includesStr lowerSentence (''is '' @ toLowerCase query) \<or>
                       includesStr lowerSentence (''are '' @ toLowerCase query) \<or>
                       includesStr lowerSentence ''defined as'' \<or>
                       includesStr lowerSentence ''refers to''
                    then score2 + 15 else score2);
          score4 = (if pdfType = ''qa'' \<and>
                       (includesStr lowerSentence ''question'' \<or>
                        includesStr lowerSentence ''answer'')
                    then score3 + 5 else score3)
      in \<lparr>sentence = s, score = score4\<rparr>)"

definition scoredSentences :: "string \<Rightarrow> string \<Rightarrow> string \<Rightarrow> scoredSentence list" where
  "scoredSentences content query pdfType =
     map (scoreSentence query pdfType) (sentencesOf content)"

definition rankedSentences :: "string \<Rightarrow> string \<Rightarrow> string \<Rightarrow> scoredSentence list" where
  \<comment> \<open>\<open>.filter(item => item.score > 0).sort((a, b) => b.score - a.score)\<close>\<close>
  "rankedSentences content query pdfType =
     sortCmp (\<lambda>a b. score b - score a)
       (filter (\<lambda>item. score item > 0) (scoredSentences content query pdfType))"

definition relevantSentences :: "string \<Rightarrow> string \<Rightarrow> string \<Rightarrow> string list" where
  "relevantSentences content query pdfType =
     map sentence (rankedSentences content query pdfType)"

definition filterRelevantContent :: "string \<Rightarrow> string \<Rightarrow> string \<Rightarrow> string" where
  "filterRelevantContent content query pdfType =
     join ''. '' (take 7 (relevantSentences content query pdfType)) @ ''.''"

text \<open>
  The ranker of the earlier server file (\<open>src/unnamed/part_004\<close>): every keyword counts,
  there is no document type, and five sentences are kept.
\<close>

definition scoreSentence_basic :: "string \<Rightarrow> string \<Rightarrow> scoredSentence" where
  "scoreSentence_basic query s =
     (let lowerSentence = toLowerCase s;
          score0 = (0 :: int);
          score1 = foldl (\<lambda>sc keyword.
                      if includesStr lowerSentence keyword then sc + 3 else sc)
                    score0 (queryKeywordsOf query);
          score2 = (if includesStr lowerSentence (toLowerCase query)
                    then score1 + 10 else score1);
          score3 = (if startsWith lowerSentence (toLowerCase query @ '' is'') \<or>
                       startsWith lowerSentence (toLowerCase query @ '' are'') \<or>
                       includesStr lowerSentence (''is '' @ toLowerCase query) \<or>
                       includesStr lowerSentence (''are '' @ toLowerCase query)
                    then score2 + 15 else score2)
      in \<lparr>sentence = s, score = score3\<rparr>)"

definition scoredSentences_basic :: "string \<Rightarrow> string \<Rightarrow> scoredSentence list" where
  "scoredSentences_basic content query = map (scoreSentence_basic query) (sentencesOf content)"

definition rankedSentences_basic :: "string \<Rightarrow> string \<Rightarrow> scoredSentence list" where
  "rankedSentences_basic content query =
     sortCmp (\<lambda>a b. score b - score a)
       (filter (\<lambda>item. score item > 0) (scoredSentences_basic content query))"

definition relevantSentences_basic :: "string \<Rightarrow> string \<Rightarrow> string list" where
  "relevantSentences_basic content query = map sentence (rankedSentences_basic content query)"

definition filterRelevantContent_basic :: "string \<Rightarrow> string \<Rightarrow> string" where
  "filterRelevantContent_basic content query =
     join ''. '' (take 5 (relevantSentences_basic content query)) @ ''.''"

section \<open>The small-talk classifier\<close>

text \<open>
  Each pattern is a test on the subject string. The patterns of \<open>isSmallTalk\<close> carry the
  flag \<open>i\<close>: their letters are ASCII, and on code units below 256 a letter of the subject
  matches such a letter exactly when its lower-case form does, so the pattern is tried on
  the lower-cased subject. \<open>^\<close> and \<open>$\<close> are the two ends of the subject (no flag \<open>m\<close>);
  an alternative without them matches anywhere.
\<close>

definition patGreeting :: "string \<Rightarrow> bool" where
  \<comment> \<open>\<open>/^hi$|^hello$|^hey$|^greetings$/\<close>\<close>
  "patGreeting s = (s = ''hi'' \<or> s = ''hello'' \<or> s = ''hey'' \<or> s = ''greetings'')"

definition patHowAreYou :: "string \<Rightarrow> bool" where
  \<comment> \<open>\<open>/^how are you$/\<close>\<close>
  "patHowAreYou s = (s = ''how are you'')"

definition patThanks :: "string \<Rightarrow> bool" where
  \<comment> \<open>\<open>/^thanks|thank you|thx/\<close>\<close>
  "patThanks s = (startsWith s ''thanks'' \<or> includesStr s ''thank you'' \<or> includesStr s ''thx'')"

definition patTimeOfDay :: "string \<Rightarrow> bool" where
  \<comment> \<open>\<open>/^good morning|good afternoon|good evening/\<close>\<close>
  "patTimeOfDay s = (startsWith s ''good morning'' \<or> includesStr s ''good afternoon'' \<or>
     includesStr s ''good evening'')"

definition patWhatsUp :: "string \<Rightarrow> bool" where
  \<comment> \<open>\<open>/^what's up|sup/\<close>\<close>
  "patWhatsUp s = (startsWith s ''what's up'' \<or> includesStr s ''sup'')"

definition patWhoAreYou :: "string \<Rightarrow> bool" where
  \<comment> \<open>\<open>/^who are you$/\<close>\<close>
  "patWhoAreYou s = (s = ''who are you'')"

definition smallTalkPatterns :: "(string \<Rightarrow> bool) list" where
  "smallTalkPatterns =
     [patGreeting, patHowAreYou, patThanks, patTimeOfDay, patWhatsUp, patWhoAreYou]"

definition testI :: "(string \<Rightarrow> bool) \<Rightarrow> string \<Rightarrow> bool" where
  \<comment> \<open>\<open>pattern.test(s)\<close> for a pattern with the flag \<open>i\<close>\<close>
  "testI pattern s = pattern (toLowerCase s)"

definition isSmallTalk :: "string \<Rightarrow> bool" where
  \<comment> \<open>\<open>smallTalkPatterns.some(pattern => pattern.test(query.trim()))\<close>\<close>
  "isSmallTalk query = list_ex (\<lambda>pattern. testI pattern (trim query)) smallTalkPatterns"

definition matchingPatterns :: "string \<Rightarrow> nat" where
  \<comment> \<open>how many of the patterns match the query\<close>
  "matchingPatterns query =
     length (filter (\<lambda>pattern. testI pattern (trim query)) smallTalkPatterns)"

definition getSmallTalkResponse :: "string \<Rightarrow> string" where
  "getSmallTalkResponse query =
     (let lowerQuery = trim (toLowerCase query)
      in if patGreeting lowerQuery then
           ''Hello! I'm your PDF assistant, ready to help you explore and understand your documents. What would you like to know about your PDF?''
         else if patHowAreYou lowerQuery then
           ''I'm doing great, thanks for asking! I'm ready to help you understand your document. What would you like to explore today?''
         else if patThanks lowerQuery then
           ''You're welcome! I'm glad I could help. Is there anything else you'd like to know about your document?''
         else if patTimeOfDay lowerQuery then
           query @ ''! It's a great time to learn something new from your document. What would you like to explore?''
         else if patWhatsUp lowerQuery then
           ''Just ready to help you understand your documents! What would you like to know?''
         else if patWhoAreYou lowerQuery then
           ''I'm your PDF assistant, here to help you understand and explore the content of your documents. You can ask me questions about anything in your PDF, and I'll provide detailed explanations!''
         else ''How can I help you with your document today?'')"

section \<open>The external services\<close>

text \<open>
  The vector store and the generative model are outside the program. A call is a function
  of its arguments that returns a value or throws, and every call made is written to a
  log, so that a theorem can say which calls a request made and in which order.
\<close>

datatype jsError = Error string

fun message :: "jsError \<Rightarrow> string" where
  "message (Error m) = m"

record generativeModel =
  model :: string
  temperaturePercent :: nat
  topK :: nat
  topPPercent :: nat
  maxOutputTokens :: nat

datatype extCall =
    RetrieverInvoke string nat string
  | GenerateContent generativeModel string

record services =
  GOOGLE_API_KEY :: string
  retrieverInvoke :: "string \<Rightarrow> nat \<Rightarrow> string \<Rightarrow> jsError + string list"
  generateContent :: "generativeModel \<Rightarrow> string \<Rightarrow> jsError + string"

text \<open>
  \<open>GOOGLE_API_KEY\<close> is the environment variable, empty when it is not set;
  \<open>retrieverInvoke collection k query\<close> is the retrieval as a whole (the embeddings, the
  vector store on the collection of the document, the retriever for \<open>k\<close> results and
  \<open>retriever.invoke(query)\<close>) and gives the page contents of the documents found;
  \<open>generateContent m prompt\<close> is \<open>model.generateContent(prompt)\<close> followed by
  \<open>response.text()\<close>.
\<close>

section \<open>The answer-request assembler\<close>

definition dq :: string where
  "dq = [CHR 0x22]"

definition unlines :: "string list \<Rightarrow> string" where
  \<comment> \<open>the lines of a template literal\<close>
  "unlines ls = join ''\<newline>'' ls"

definition pageRefTextOf :: "nat list \<Rightarrow> string" where
  "pageRefTextOf pageReferences =
     (if length pageReferences > 0
      then ''This information can be found on pages '' @
           join '', '' (map showNat pageReferences) @ ''.''
      else '''')"

subsection \<open>\<open>generateEnhancedAnswer\<close> of \<open>src/server/server.js\<close>\<close>

definition enhancedModel :: "string \<Rightarrow> generativeModel" where
  "enhancedModel depth =
     \<lparr>model = ''gemini-2.0-flash'',
      temperaturePercent = (if depth = ''deep'' then 30 else 10),
      topK = (if depth = ''deep'' then 40 else 20),
      topPPercent = (if depth = ''deep'' then 95 else 90),
      maxOutputTokens = (if depth = ''deep'' then 4096 else 2048)\<rparr>"

definition enhancedDepthInstruction :: "string \<Rightarrow> string" where
  "enhancedDepthInstruction depth =
     (if depth = ''step-by-step'' then
        ''Provide a detailed, step-by-step explanation. Break down complex concepts into manageable steps with clear transitions between them.''
      else if depth = ''deep'' then
        ''Provide a comprehensive, in-depth explanation with detailed examples, analogies, and thorough context.''
      else if depth = ''deeper'' then
        ''Provide an extremely detailed, exhaustive explanation covering all aspects, with multiple examples, practical applications, and connections to related concepts.''
      else if depth = ''simple'' then
        ''Provide a simple, easy-to-understand explanation. Avoid technical jargon and use everyday language with relatable examples.''
      else ''Provide a clear, direct answer that addresses the specific question.'')"

definition typeInstructionOf :: "string \<Rightarrow> string" where
  "typeInstructionOf pdfType =
     (if pdfType = ''qa'' then
        ''This document appears to be in a question-answer format. When appropriate, structure your response in a similar Q&A style or clearly address the questions posed in the document.''
      else '''')"

definition enhancedPrompt ::
  "string \<Rightarrow> string \<Rightarrow> string \<Rightarrow> string \<Rightarrow> string \<Rightarrow> string \<Rightarrow> string \<Rightarrow> string" where
  "enhancedPrompt pdfType query depth context depthInstruction typeInstruction pageRefText =
     unlines
       ['''',
        ''      You are an expert educational assistant that provides exceptional answers based on document content.'',
        '''',
        ''      DOCUMENT TYPE: '' @ pdfType,
        ''      USER QUESTION: '' @ dq @ query @ dq,
        ''      REQUESTED DEPTH: '' @ depth,
        '''',
        ''      DOCUMENT CONTEXT:'',
        ''      '' @ context,
        '''',
        ''      INSTRUCTIONS:'',
        ''      1. '' @ depthInstruction,
        ''      2. '' @ typeInstruction,
        ''      3. Answer the question based ONLY on the provided document content'',
        ''      4. Do not make up information not found in the document'',
        ''      5. If the document doesn't contain the answer, say so politely but helpfully'',
        ''      6. Write in a natural, engaging, and conversational tone'',
        ''      7. Format your response appropriately - use headings, bullet points, or numbered steps when helpful'',
        ''      8. Include the page reference: '' @ dq @ pageRefText @ dq,
        '''',
        ''      IMPORTANT: '',
        ''      - If explaining a process or concept, break it down into logical steps'',
        ''      - Use analogies and examples to make complex ideas accessible'',
        ''      - For mathematical or technical content, show your work or reasoning process'',
        ''      - Adapt your explanation style to match the document's content and structure'',
        '''',
        ''      Please provide your enhanced answer:'',
        ''    '']"

definition enhancedFallback :: "string \<Rightarrow> nat list \<Rightarrow> string" where
  \<comment> \<open>the text returned by the \<open>catch\<close> block\<close>
  "enhancedFallback query pageReferences =
     ''Based on the document, I found relevant information about '' @ dq @ query @ dq @
     ''. '' @
     (if length pageReferences > 0
      then ''This information can be found on pages '' @
           join '', '' (map showNat pageReferences) @ ''.''
      else '''')"

definition generateEnhancedAnswer ::
  "services \<Rightarrow> string \<Rightarrow> string \<Rightarrow> nat list \<Rightarrow> string \<Rightarrow> string \<Rightarrow> string \<times> extCall list"
  where
  "generateEnhancedAnswer sv query context pageReferences pdfType depth =
     (if GOOGLE_API_KEY sv = '''' then (enhancedFallback query pageReferences, [])
      else
        (let m = enhancedModel depth;
             depthInstruction = enhancedDepthInstruction depth;
             typeInstruction = typeInstructionOf pdfType;
             pageRefText = pageRefTextOf pageReferences;
             prompt = enhancedPrompt pdfType query depth context depthInstruction
                        typeInstruction pageRefText
         in case generateContent sv m prompt of
              Inl e \<Rightarrow> (enhancedFallback query pageReferences, [GenerateContent m prompt])
            | Inr text \<Rightarrow>
                (if pageRefText \<noteq> '''' \<and> \<not> includesStr text pageRefText
                 then (text @ ''\<newline>\<newline>'' @ pageRefText, [GenerateContent m prompt])
                 else (text, [GenerateContent m prompt]))))"

subsection \<open>\<open>generateNaturalAnswer\<close> of the earlier server file\<close>

definition naturalModel :: "string \<Rightarrow> generativeModel" where
  "naturalModel depth =
     \<lparr>model = ''gemini-pro'',
      temperaturePercent = (if depth = ''deep'' then 30 else 10),
      topK = (if depth = ''deep'' then 40 else 20),
      topPPercent = (if depth = ''deep'' then 95 else 90),
      maxOutputTokens = (if depth = ''deep'' then 2048 else 1024)\<rparr>"

definition naturalDepthInstruction :: "string \<Rightarrow> string" where
  "naturalDepthInstruction depth =
     (if depth = ''deep'' then
        ''Provide a comprehensive, in-depth explanation with detailed examples and thorough context.''
      else if depth = ''deeper'' then
        ''Provide an extremely detailed, exhaustive explanation covering all aspects, with multiple examples and practical applications.''
      else ''Provide a clear, direct answer that addresses the specific question.'')"

definition naturalPrompt :: "string \<Rightarrow> string \<Rightarrow> string \<Rightarrow> string \<Rightarrow> string" where
  "naturalPrompt query context depthInstruction pageRefText =
     unlines
       ['''',
        ''      You are a helpful assistant that provides accurate answers based on document content.'',
        '''',
        ''      USER QUESTION: '' @ dq @ query @ dq,
        '''',
        ''      DOCUMENT CONTENT:'',
        ''      '' @ context,
        '''',
        ''      INSTRUCTIONS:'',
        ''      1. Answer the user's question in a natural, conversational tone'',
        ''      2. Use ONLY the information from the provided document content'',
        ''      3. '' @ depthInstruction,
        ''      4. If the document doesn't contain the answer, say: '' @ dq @ ''I couldn't find specific information about this in the document. Please try asking about a different topic or rephrasing your question.'' @ dq,
        ''      5. Format your response as a clear, well-structured answer'',
        ''      6. Do not mention that you're '' @ dq @ ''based on the document'' @ dq @ '' - just provide the answer directly'',
        ''      7. At the end, mention the page references like this: '' @ dq @ pageRefText @ dq,
        '''',
        ''      IMPORTANT: '',
        ''      - Do not just copy text from the document. Synthesize the information into a coherent answer.'',
        ''      - If the document content doesn't directly answer the question, admit it rather than making up an answer.'',
        '''',
        ''      Please provide your answer:'',
        ''    '']"

definition retryPromptOf :: "string \<Rightarrow> string \<Rightarrow> string" where
  "retryPromptOf query context =
     unlines
       ['''',
        ''        The user asked: '' @ dq @ query @ dq,
        ''        '',
        ''        Here is the relevant content from the document:'',
        ''        '' @ context,
        ''        '',
        ''        Even if the information is not perfect, try to provide the most helpful answer possible based on what's available.'',
        ''        If you can infer something from the context, do so but mention it's an inference.'',
        ''        If there's truly nothing relevant, say: '' @ dq @ ''I couldn't find specific information about this in the document. '',
        ''        The document seems to focus on other topics. Please try asking about something else.'' @ dq,
        ''      '']"

definition naturalFallback :: "string \<Rightarrow> nat list \<Rightarrow> string" where
  \<comment> \<open>the text returned by the \<open>catch\<close> block\<close>
  "naturalFallback query pageReferences =
     (if length pageReferences > 0
      then ''I found some information about '' @ dq @ query @ dq @
           '' in the document. This information can be found on pages '' @
           join '', '' (map showNat pageReferences) @ ''.''
      else ''I couldn't find specific information about '' @ dq @ query @ dq @
           '' in the document. Please try asking about a different topic.'')"

definition isNonAnswer :: "string \<Rightarrow> bool" where
  \<comment> \<open>the test that sends the retry\<close>
  "isNonAnswer finalResponse =
     (includesStr finalResponse ''I couldn't find'' \<or>
      includesStr finalResponse ''the document doesn't contain'' \<or>
      length finalResponse < 50)"

definition addPageReferences :: "string \<Rightarrow> string \<Rightarrow> string" where
  \<comment> \<open>the last step before \<open>return finalResponse\<close>\<close>
  "addPageReferences pageRefText finalResponse =
     (if pageRefText \<noteq> '''' \<and> \<not> includesStr finalResponse pageRefText \<and>
         \<not> includesStr finalResponse ''I couldn't find''
      then finalResponse @ '' '' @ pageRefText else finalResponse)"

definition generateNaturalAnswer ::
  "services \<Rightarrow> string \<Rightarrow> string \<Rightarrow> nat list \<Rightarrow> string \<Rightarrow> string \<times> extCall list" where
  "generateNaturalAnswer sv query context pageReferences depth =
     (if GOOGLE_API_KEY sv = '''' then (naturalFallback query pageReferences, [])
      else
        (let m = naturalModel depth;
             depthInstruction = naturalDepthInstruction depth;
             pageRefText = pageRefTextOf pageReferences;
             prompt = naturalPrompt query context depthInstruction pageRefText
         in case generateContent sv m prompt of
              Inl e \<Rightarrow> (naturalFallback query pageReferences, [GenerateContent m prompt])
            | Inr text \<Rightarrow>
                (if isNonAnswer text
                 then (let retryPrompt = retryPromptOf query context
                       in case generateContent sv m retryPrompt of
                            Inl e \<Rightarrow>
                              (naturalFallback query pageReferences,
                               [GenerateContent m prompt, GenerateContent m retryPrompt])
                          | Inr retryText \<Rightarrow>
                              (addPageReferences pageRefText retryText,
                               [GenerateContent m prompt, GenerateContent m retryPrompt]))
                 else (addPageReferences pageRefText text, [GenerateContent m prompt]))))"

section \<open>The chat endpoint of \<open>src/server/server.js\<close>\<close>

record chatBody =
  reqQuery :: "string option"
  reqPdfId :: "string option"
  reqDepth :: "string option"

record pdfData =
  filename :: string
  uploadedAt :: string
  docType :: string

text \<open>
  The body of a request is the three fields the handler reads, each absent or a string.
  A stored document has the type that the upload wrote; \<open>pdfData.type || 'general'\<close>
  reads an empty one as \<open>general\<close>.
\<close>

record chatPayload =
  resQuery :: string
  results :: string
  pageReferences :: "nat list"
  count :: nat

datatype httpResponse =
    Json chatPayload
  | BadRequest string
  | InternalServerError string string

definition notFoundText :: "string \<Rightarrow> string" where
  "notFoundText q =
     ''I couldn't find specific information about '' @ dq @ q @ dq @
     '' in this document. The document might focus on different topics. Could you try asking about something else or rephrasing your question?''"

definition chat ::
  "services \<Rightarrow> (string \<rightharpoonup> pdfData) \<Rightarrow> chatBody \<Rightarrow> httpResponse \<times> extCall list" where
  "chat sv pdfCollections body =
     (case reqQuery body of
        None \<Rightarrow> (BadRequest ''Query parameter is required'', [])
      | Some q \<Rightarrow>
          if q = '''' then (BadRequest ''Query parameter is required'', [])
          else
            (case (case reqPdfId body of None \<Rightarrow> None
                   | Some i \<Rightarrow> if i = '''' then None
                               else map_option (Pair i) (pdfCollections i)) of
               None \<Rightarrow> (BadRequest ''Valid PDF ID is required'', [])
             | Some (i, pdfData) \<Rightarrow>
                 if isSmallTalk q
                 then (Json \<lparr>resQuery = q, results = getSmallTalkResponse q,
                              pageReferences = [], count = 0\<rparr>, [])
                 else
                   (let pdfType = (if docType pdfData = '''' then ''general''
                                   else docType pdfData);
                        k = (if reqDepth body = Some ''deep'' \<or> reqDepth body = Some ''deeper''
                             then 10 else 7)
                    in case retrieverInvoke sv i k q of
                         Inl e \<Rightarrow>
                           (InternalServerError ''Internal server error'' (message e),
                            [RetrieverInvoke i k q])
                       | Inr docs \<Rightarrow>
                           if length docs = 0
                           then (Json \<lparr>resQuery = q, results = notFoundText q,
                                        pageReferences = [], count = 0\<rparr>,
                                 [RetrieverInvoke i k q])
                           else
                             (let relevantContent = join '' '' docs;
                                  pageRefs = extractPageNumbers relevantContent;
                                  filteredContext =
                                    filterRelevantContent relevantContent q pdfType;
                                  d = (case reqDepth body of None \<Rightarrow> ''normal''
                                       | Some x \<Rightarrow> if x = '''' then ''normal'' else x);
                                  (aiResponse, calls) =
                                    generateEnhancedAnswer sv q filteredContext pageRefs
                                      pdfType d
                              in (Json \<lparr>resQuery = q, results = aiResponse,
                                        pageReferences = pageRefs, count = length docs\<rparr>,
                                  RetrieverInvoke i k q # calls)))))"

section \<open>The scoring rule as the specification words it\<close>

text \<open>
  The specification gives the score of a sentence as a sum of three parts. These two
  definitions follow its words; the theorem on the scoring compares them with
  \<open>scoreSentence\<close>, which follows the code.
\<close>

definition definitional :: "string \<Rightarrow> string \<Rightarrow> bool" where
  \<comment> \<open>the sentence \<open>ls\<close> matches a definitional pattern relative to the query \<open>lq\<close>\<close>
  "definitional lq ls =
     (startsWith ls (lq @ '' is'') \<or> startsWith ls (lq @ '' are'') \<or>
      includesStr ls (''is '' @ lq) \<or> includesStr ls (''are '' @ lq) \<or>
      includesStr ls ''defined as'' \<or> includesStr ls ''refers to'')"

definition spec_score :: "string \<Rightarrow> string \<Rightarrow> int" where
  \<comment> \<open>3 for each keyword longer than 3 that the lower-cased sentence contains, 10 for the
      whole lower-cased query, 15 for a definitional pattern\<close>
  "spec_score q s =
     3 * int (length (filter (\<lambda>k. length k > 3 \<and> includesStr (toLowerCase s) k)
                        (queryKeywordsOf q)))
     + (if includesStr (toLowerCase s) (toLowerCase q) then 10 else 0)
     + (if definitional (toLowerCase q) (toLowerCase s) then 15 else 0)"

section \<open>Page markers of a text\<close>

definition inMarker :: "string \<Rightarrow> nat \<Rightarrow> bool" where
  \<comment> \<open>the text holds a marker \<open>[Page ds]\<close> whose digits \<open>ds\<close> read as the number \<open>n\<close>\<close>
  "inMarker s n = (\<exists>a ds b. s = a @ ''[Page '' @ ds @ '']'' @ b \<and> ds \<noteq> [] \<and>
      (\<forall>c \<in> set ds. isDigit c) \<and> parseInt ds = n)"

definition exactMarkers :: "string \<Rightarrow> bool" where
  \<comment> \<open>every page marker that the scan of the text finds holds a number below \<open>2^53\<close>:
      for such a text the Numbers of the code are the integers of the markers\<close>
  "exactMarkers content = list_all (\<lambda>n. n < 2 ^ 53) (pageMatches content)"

section \<open>Facts about the string primitives\<close>

lemma startsWith_iff: "startsWith s p \<longleftrightarrow> (\<exists>b. s = p @ b)"
  by (induction s p rule: startsWith.induct) auto

lemma includesStr_iff: "includesStr s p \<longleftrightarrow> (\<exists>a b. s = a @ p @ b)"
proof (induction s)
  case Nil
  then show ?case by auto
next
  case (Cons c cs)
  show ?case
  proof
    assume "includesStr (c # cs) p"
    then consider "startsWith (c # cs) p" | "includesStr cs p" by auto
    then show "\<exists>a b. c # cs = a @ p @ b"
    proof cases
      case 1
      then obtain b where "c # cs = p @ b" by (auto simp: startsWith_iff)
      then have "c # cs = [] @ p @ b" by simp
      then show ?thesis by blast
    next
      case 2
      then obtain a b where "cs = a @ p @ b" using Cons.IH by blast
      then have "c # cs = (c # a) @ p @ b" by simp
      then show ?thesis by blast
    qed
  next
    assume "\<exists>a b. c # cs = a @ p @ b"
    then obtain a b where ab: "c # cs = a @ p @ b" by blast
    show "includesStr (c # cs) p"
    proof (cases a)
      case Nil
      with ab have "startsWith (c # cs) p" by (auto simp: startsWith_iff)
      then show ?thesis by simp
    next
      case (Cons x a')
      with ab have "cs = a' @ p @ b" by simp
      then have "includesStr cs p" using Cons.IH by blast
      then show ?thesis by simp
    qed
  qed
qed

lemma dropWhile_keeps_infix:
  assumes "p \<noteq> []" "\<not> P (hd p)"
  shows "\<exists>a'. dropWhile P (a @ p @ b) = a' @ p @ b"
proof (cases "\<forall>x\<in>set a. P x")
  case True
  then have "dropWhile P (a @ p @ b) = dropWhile P (p @ b)"
    by (simp add: dropWhile_append2)
  also from assms have "\<dots> = [] @ p @ b" by (cases p) auto
  finally show ?thesis by blast
next
  case False
  then obtain x where "x \<in> set a" "\<not> P x" by blast
  then have "dropWhile P (a @ p @ b) = dropWhile P a @ p @ b"
    by (simp add: dropWhile_append1)
  then show ?thesis by blast
qed

lemma includesStr_trim:
  assumes inc: "includesStr s p" and ne: "p \<noteq> []"
    and h: "\<not> isSpace (hd p)" and l: "\<not> isSpace (last p)"
  shows "includesStr (trim s) p"
proof -
  from inc obtain a b where "s = a @ p @ b" by (auto simp: includesStr_iff)
  moreover obtain a' where a': "dropWhile isSpace (a @ p @ b) = a' @ p @ b"
    using dropWhile_keeps_infix [of p isSpace a b] ne h by blast
  moreover have "rev p \<noteq> []" "\<not> isSpace (hd (rev p))"
    using ne l by (simp_all add: hd_rev)
  then obtain b' where "dropWhile isSpace (rev b @ rev p @ rev a') = b' @ rev p @ rev a'"
    using dropWhile_keeps_infix [of "rev p" isSpace "rev b" "rev a'"] by blast
  ultimately have "trim s = a' @ p @ rev b'"
    by (simp add: trim_def)
  then show ?thesis by (auto simp: includesStr_iff)
qed

lemma includesStr_toLowerCase:
  assumes "includesStr s p"
  shows "includesStr (toLowerCase s) (toLowerCase p)"
proof -
  from assms obtain a b where "s = a @ p @ b" by (auto simp: includesStr_iff)
  then have "toLowerCase s = toLowerCase a @ toLowerCase p @ toLowerCase b"
    by (simp add: toLowerCase_def)
  then show ?thesis unfolding includesStr_iff by blast
qed

lemmas lower_defs = toLowerCase_def lowerChar_def upperLetters_def lowerLetters_def

lemmas st_defs = isSmallTalk_def smallTalkPatterns_def testI_def trim_def lower_defs
  isSpace_def patGreeting_def patHowAreYou_def patThanks_def patTimeOfDay_def
  patWhatsUp_def patWhoAreYou_def matchingPatterns_def

section \<open>The branches of the chat handler\<close>

text \<open>
  One lemma for each way through the handler, in the order of the code: the two
  rejections, small talk, a failing retriever, no document found, and the answer.
\<close>

lemma chat_no_query:
  assumes "reqQuery body = None \<or> reqQuery body = Some ''''"
  shows "chat sv pdfs body = (BadRequest ''Query parameter is required'', [])"
  using assms by (auto simp: chat_def)

lemma chat_no_pdf:
  assumes "reqQuery body = Some q" "q \<noteq> ''''"
    "reqPdfId body = None \<or> reqPdfId body = Some '''' \<or>
     (\<exists>i. reqPdfId body = Some i \<and> pdfs i = None)"
  shows "chat sv pdfs body = (BadRequest ''Valid PDF ID is required'', [])"
  using assms by (auto simp: chat_def)

lemma chat_small:
  assumes "reqQuery body = Some q" "q \<noteq> ''''" "reqPdfId body = Some i" "i \<noteq> ''''"
    "pdfs i = Some pd" "isSmallTalk q"
  shows "chat sv pdfs body =
     (Json \<lparr>resQuery = q, results = getSmallTalkResponse q, pageReferences = [], count = 0\<rparr>, [])"
  using assms by (simp add: chat_def)

lemma chat_retrieval_error:
  assumes "reqQuery body = Some q" "q \<noteq> ''''" "reqPdfId body = Some i" "i \<noteq> ''''"
    "pdfs i = Some pd" "\<not> isSmallTalk q"
    "retrieverInvoke sv i
       (if reqDepth body = Some ''deep'' \<or> reqDepth body = Some ''deeper'' then 10 else 7) q
     = Inl e"
  shows "snd (chat sv pdfs body) =
     [RetrieverInvoke i
        (if reqDepth body = Some ''deep'' \<or> reqDepth body = Some ''deeper'' then 10 else 7) q]"
  using assms by (simp add: chat_def Let_def)

lemma chat_no_results:
  assumes "reqQuery body = Some q" "q \<noteq> ''''" "reqPdfId body = Some i" "i \<noteq> ''''"
    "pdfs i = Some pd" "\<not> isSmallTalk q"
    "retrieverInvoke sv i
       (if reqDepth body = Some ''deep'' \<or> reqDepth body = Some ''deeper'' then 10 else 7) q
     = Inr []"
  shows "snd (chat sv pdfs body) =
     [RetrieverInvoke i
        (if reqDepth body = Some ''deep'' \<or> reqDepth body = Some ''deeper'' then 10 else 7) q]"
  using assms by (simp add: chat_def Let_def)

lemma chat_answer:
  assumes "reqQuery body = Some q" "q \<noteq> ''''" "reqPdfId body = Some i" "i \<noteq> ''''"
    "pdfs i = Some pd" "\<not> isSmallTalk q"
    "retrieverInvoke sv i
       (if reqDepth body = Some ''deep'' \<or> reqDepth body = Some ''deeper'' then 10 else 7) q
     = Inr docs" "docs \<noteq> []"
    and t: "t = (if docType pd = '''' then ''general'' else docType pd)"
    and d: "d = (case reqDepth body of None \<Rightarrow> ''normal''
                 | Some x \<Rightarrow> if x = '''' then ''normal'' else x)"
    and refs: "refs = extractPageNumbers (join '' '' docs)"
    and ctx: "ctx = filterRelevantContent (join '' '' docs) q t"
  shows "chat sv pdfs body =
     (Json \<lparr>resQuery = q, results = fst (generateEnhancedAnswer sv q ctx refs t d),
            pageReferences = refs, count = length docs\<rparr>,
      RetrieverInvoke i
        (if reqDepth body = Some ''deep'' \<or> reqDepth body = Some ''deeper'' then 10 else 7) q
      # snd (generateEnhancedAnswer sv q ctx refs t d))"
  using assms(1-8) unfolding t d refs ctx by (simp add: chat_def Let_def split_beta)

lemma chat_smalltalk:
  assumes "isSmallTalk q" "q \<noteq> ''''" "i \<noteq> ''''" "pdfCollections i = Some d"
  shows "chat sv pdfCollections \<lparr>reqQuery = Some q, reqPdfId = Some i, reqDepth = dep\<rparr> =
     (Json \<lparr>resQuery = q, results = getSmallTalkResponse q, pageReferences = [], count = 0\<rparr>, [])"
  using assms by (simp add: chat_def)

section \<open>Small talk: the classifier and the requests it intercepts\<close>

text \<open>
  Claim C5, as the code has it. The queries \<open>Hello\<close>, \<open>hi\<close>, \<open>Thanks!\<close> and \<open>Who are you\<close>
  (without a question mark) are small talk, each matched by exactly one of the six patterns.
  For each of them the chat endpoint, asked about a stored document, answers with the canned
  response, no page references and the count 0, and calls neither the retriever nor the
  generative model.
\<close>

theorem smalltalk_fixed_queries:
  assumes q: "q \<in> {''Hello'', ''hi'', ''Thanks!'', ''Who are you''}"
    and i: "i \<noteq> ''''" and d: "pdfCollections i = Some d"
  shows "isSmallTalk q \<and> matchingPatterns q = 1 \<and>
     chat sv pdfCollections \<lparr>reqQuery = Some q, reqPdfId = Some i, reqDepth = dep\<rparr> =
       (Json \<lparr>resQuery = q, results = getSmallTalkResponse q, pageReferences = [], count = 0\<rparr>,
        [])"
proof -
  have 1: "isSmallTalk ''Hello'' \<and> matchingPatterns ''Hello'' = 1" by (simp add: st_defs)
  have 2: "isSmallTalk ''hi'' \<and> matchingPatterns ''hi'' = 1" by (simp add: st_defs)
  have 3: "isSmallTalk ''Thanks!'' \<and> matchingPatterns ''Thanks!'' = 1" by (simp add: st_defs)
  have 4: "isSmallTalk ''Who are you'' \<and> matchingPatterns ''Who are you'' = 1"
    by (simp add: st_defs)
  from q 1 2 3 4 have st: "isSmallTalk q \<and> matchingPatterns q = 1" by blast
  from q have "q \<noteq> ''''" by auto
  with st i d show ?thesis by (simp add: chat_smalltalk)
qed

text \<open>
  The theorem at the query \<open>Thanks!\<close>, for a server that holds one document: the canned
  response is the one of the third pattern.
\<close>

theorem smalltalk_fixed_queries_witness:
  "''Thanks!'' \<in> {''Hello'', ''hi'', ''Thanks!'', ''Who are you''} \<and>
   isSmallTalk ''Thanks!'' \<and> matchingPatterns ''Thanks!'' = 1 \<and>
   chat \<lparr>GOOGLE_API_KEY = ''key'', retrieverInvoke = (\<lambda>c k q. Inr [''Text [Page 4].'']),
         generateContent = (\<lambda>m p. Inr ''An answer.'')\<rparr>
        [''doc1'' \<mapsto> \<lparr>filename = ''a.pdf'', uploadedAt = ''2025'', docType = ''general''\<rparr>]
        \<lparr>reqQuery = Some ''Thanks!'', reqPdfId = Some ''doc1'', reqDepth = None\<rparr> =
     (Json \<lparr>resQuery = ''Thanks!'',
            results = ''You're welcome! I'm glad I could help. Is there anything else you'd like to know about your document?'',
            pageReferences = [], count = 0\<rparr>, [])"
proof -
  have a: "''Thanks!'' \<in> {''Hello'', ''hi'', ''Thanks!'', ''Who are you''}" by simp
  have r: "getSmallTalkResponse ''Thanks!'' =
      ''You're welcome! I'm glad I could help. Is there anything else you'd like to know about your document?''"
    by (simp add: getSmallTalkResponse_def st_defs)
  show ?thesis
    using a r smalltalk_fixed_queries [of "''Thanks!''" "''doc1''"
      "[''doc1'' \<mapsto> \<lparr>filename = ''a.pdf'', uploadedAt = ''2025'', docType = ''general''\<rparr>]"
      "\<lparr>filename = ''a.pdf'', uploadedAt = ''2025'', docType = ''general''\<rparr>"
      "\<lparr>GOOGLE_API_KEY = ''key'', retrieverInvoke = (\<lambda>c k q. Inr [''Text [Page 4].'']),
         generateContent = (\<lambda>m p. Inr ''An answer.'')\<rparr>" None]
    by simp
qed

text \<open>
  Claim C5 as it is written fails: \<open>/^who are you$/i\<close> ends at the end of the subject, so the
  query \<open>Who are you?\<close> with its question mark matches no pattern, and the chat endpoint
  goes on to the retriever.
\<close>

theorem smalltalk_question_mark_counterexample:
  "\<not> isSmallTalk ''Who are you?'' \<and> matchingPatterns ''Who are you?'' = 0 \<and>
   snd (chat \<lparr>GOOGLE_API_KEY = ''key'', retrieverInvoke = (\<lambda>c k q. Inr []),
              generateContent = (\<lambda>m p. Inr ''An answer.'')\<rparr>
        [''doc1'' \<mapsto> \<lparr>filename = ''a.pdf'', uploadedAt = ''2025'', docType = ''general''\<rparr>]
        \<lparr>reqQuery = Some ''Who are you?'', reqPdfId = Some ''doc1'', reqDepth = None\<rparr>) =
     [RetrieverInvoke ''doc1'' 7 ''Who are you?'']"
proof -
  have a: "\<not> isSmallTalk ''Who are you?''" by (simp add: st_defs)
  have b: "matchingPatterns ''Who are you?'' = 0" by (simp add: st_defs)
  from a b show ?thesis by (simp add: chat_def)
qed

text \<open>
  Claim C10. The alternatives \<open>sup\<close>, \<open>thank you\<close> and \<open>thx\<close> carry no \<open>^\<close>, so every query
  that contains one of them is small talk, whatever else it asks: the chat endpoint answers
  it with a canned response, no page references and the count 0, and makes no call to the
  retriever or to the generative model.
\<close>

theorem smalltalk_captures_document_questions:
  assumes sub: "includesStr q ''sup'' \<or> includesStr q ''thank you'' \<or> includesStr q ''thx''"
    and i: "i \<noteq> ''''" and d: "pdfCollections i = Some d"
  shows "isSmallTalk q \<and>
     chat sv pdfCollections \<lparr>reqQuery = Some q, reqPdfId = Some i, reqDepth = dep\<rparr> =
       (Json \<lparr>resQuery = q, results = getSmallTalkResponse q, pageReferences = [], count = 0\<rparr>,
        [])"
proof -
  have low: "includesStr (toLowerCase (trim q)) p"
    if "includesStr q p" "p \<noteq> []" "\<not> isSpace (hd p)" "\<not> isSpace (last p)"
       "toLowerCase p = p" for p
    using includesStr_toLowerCase [OF includesStr_trim [OF that(1-4)]] that(5) by simp
  from sub have "patThanks (toLowerCase (trim q)) \<or> patWhatsUp (toLowerCase (trim q))"
  proof (elim disjE)
    assume "includesStr q ''sup''"
    then have "includesStr (toLowerCase (trim q)) ''sup''"
      by (rule low) (simp_all add: isSpace_def lower_defs)
    then show ?thesis by (simp add: patWhatsUp_def)
  next
    assume "includesStr q ''thank you''"
    then have "includesStr (toLowerCase (trim q)) ''thank you''"
      by (rule low) (simp_all add: isSpace_def lower_defs)
    then show ?thesis by (simp add: patThanks_def)
  next
    assume "includesStr q ''thx''"
    then have "includesStr (toLowerCase (trim q)) ''thx''"
      by (rule low) (simp_all add: isSpace_def lower_defs)
    then show ?thesis by (simp add: patThanks_def)
  qed
  then have st: "isSmallTalk q"
    by (auto simp: isSmallTalk_def smallTalkPatterns_def testI_def)
  from sub have "q \<noteq> ''''" by auto
  with st i d show ?thesis by (simp add: chat_smalltalk)
qed

text \<open>
  The theorem at the document question \<open>What is the supply chain?\<close>: the answer is the
  canned response of the pattern \<open>/^what's up|sup/\<close>.
\<close>

theorem smalltalk_captures_document_questions_witness:
  "includesStr ''What is the supply chain?'' ''sup'' \<and>
   isSmallTalk ''What is the supply chain?'' \<and>
   chat \<lparr>GOOGLE_API_KEY = ''key'',
         retrieverInvoke = (\<lambda>c k q. Inr [''Supply chains [Page 4] are networks.'']),
         generateContent = (\<lambda>m p. Inr ''A supply chain is a network.'')\<rparr>
        [''doc1'' \<mapsto> \<lparr>filename = ''a.pdf'', uploadedAt = ''2025'', docType = ''general''\<rparr>]
        \<lparr>reqQuery = Some ''What is the supply chain?'', reqPdfId = Some ''doc1'',
         reqDepth = None\<rparr> =
     (Json \<lparr>resQuery = ''What is the supply chain?'',
            results = ''Just ready to help you understand your documents! What would you like to know?'',
            pageReferences = [], count = 0\<rparr>, [])"
proof -
  have a: "includesStr ''What is the supply chain?'' ''sup''" by simp
  have r: "getSmallTalkResponse ''What is the supply chain?'' =
      ''Just ready to help you understand your documents! What would you like to know?''"
    by (simp add: getSmallTalkResponse_def st_defs)
  show ?thesis
    using a r smalltalk_captures_document_questions [of "''What is the supply chain?''" "''doc1''"
      "[''doc1'' \<mapsto> \<lparr>filename = ''a.pdf'', uploadedAt = ''2025'', docType = ''general''\<rparr>]"
      "\<lparr>filename = ''a.pdf'', uploadedAt = ''2025'', docType = ''general''\<rparr>"
      "\<lparr>GOOGLE_API_KEY = ''key'',
        retrieverInvoke = (\<lambda>c k q. Inr [''Supply chains [Page 4] are networks.'']),
        generateContent = (\<lambda>m p. Inr ''A supply chain is a network.'')\<rparr>" None]
    by simp
qed

section \<open>Properties of the relevance ranker\<close>

lemma insortCmp_key:
  assumes "\<And>x y. (cmp x y \<le> 0) = (key x \<le> key y)"
  shows "insortCmp cmp x ys = insort_key key x ys"
  by (induction ys) (simp_all add: assms)

lemma sortCmp_key:
  assumes "\<And>x y. (cmp x y \<le> 0) = (key x \<le> key y)"
  shows "sortCmp cmp xs = sort_key key xs"
  unfolding sortCmp_def sort_key_def
  by (induction xs) (simp_all add: insortCmp_key [of cmp key, OF assms])

lemma sortCmp_score:
  "sortCmp (\<lambda>a b. score b - score a) xs = sort_key (\<lambda>it. - score it) xs"
  by (rule sortCmp_key) auto

lemma keyword_fold:
  "foldl (\<lambda>sc k. if P k then sc + 3 else sc) (a :: int) ks =
     a + 3 * int (length (filter P ks))"
  by (induction ks arbitrary: a) simp_all

lemma stable_ranked:
  "filter (\<lambda>it. score it = v) (sortCmp (\<lambda>a b. score b - score a) xs) =
     filter (\<lambda>it. score it = v) xs"
proof -
  have "filter (\<lambda>it. - score it = - v) (sort_key (\<lambda>it. - score it) xs) =
      filter (\<lambda>it. - score it = - v) xs"
    by (rule sort_key_stable)
  then show ?thesis by (simp add: sortCmp_score)
qed

lemma splitOn_not_Nil: "splitOn P s \<noteq> []"
  by (induction s) (auto split: list.splits)

lemma splitOn_no_sep: "w \<in> set (splitOn P s) \<Longrightarrow> c \<in> set w \<Longrightarrow> \<not> P c"
proof (induction s arbitrary: w)
  case Nil
  then show ?case by simp
next
  case (Cons x xs)
  show ?case
  proof (cases "P x")
    case True
    with Cons show ?thesis by auto
  next
    case False
    obtain v vs where sp: "splitOn P xs = v # vs"
      using splitOn_not_Nil [of P xs] by (cases "splitOn P xs") auto
    with False Cons.prems have "w = x # v \<or> w \<in> set vs" by auto
    then show ?thesis
    proof
      assume "w = x # v"
      with Cons.prems(2) have "c = x \<or> c \<in> set v" by auto
      with False Cons.IH [of v] sp show ?thesis by auto
    next
      assume "w \<in> set vs"
      with Cons.IH [of w] sp Cons.prems(2) show ?thesis by auto
    qed
  qed
qed

lemma count_join:
  assumes "\<And>w c. w \<in> set ws \<Longrightarrow> c \<in> set w \<Longrightarrow> \<not> isTerminal c"
  shows "length (filter isTerminal (join ''. '' ws)) = length ws - 1"
  using assms
proof (induction ws)
  case Nil
  then show ?case by simp
next
  case (Cons x ys)
  then have x: "filter isTerminal x = []" by (auto simp: filter_empty_conv)
  have ih: "length (filter isTerminal (join ''. '' ys)) = length ys - 1"
    using Cons by auto
  show ?case
  proof (cases ys)
    case Nil
    with x show ?thesis by simp
  next
    case (Cons y zs)
    have "isTerminal CHR ''.''" "\<not> isTerminal CHR '' ''" by (simp_all add: isTerminal_def)
    with Cons x ih show ?thesis by simp
  qed
qed

lemma rankedSentences_sort:
  "rankedSentences c q t =
     sort_key (\<lambda>it. - score it) (filter (\<lambda>it. 0 < score it) (scoredSentences c q t))"
  by (simp add: rankedSentences_def sortCmp_score)

lemma rankedSentences_basic_sort:
  "rankedSentences_basic c q =
     sort_key (\<lambda>it. - score it) (filter (\<lambda>it. 0 < score it) (scoredSentences_basic c q))"
  by (simp add: rankedSentences_basic_def sortCmp_score)

lemma filterRelevantContent_take:
  "filterRelevantContent c q t =
     join ''. '' (map sentence (take 7 (rankedSentences c q t))) @ ''.''"
  by (simp add: filterRelevantContent_def relevantSentences_def take_map)

lemma sentence_no_terminal:
  assumes "it \<in> set (scoredSentences c q t)" "x \<in> set (sentence it)"
  shows "\<not> isTerminal x"
proof -
  from assms(1) obtain s where "s \<in> set (sentencesOf c)" "it = scoreSentence q t s"
    by (auto simp: scoredSentences_def)
  then have "sentence it \<in> set (splitOn isTerminal c)"
    by (simp add: sentencesOf_def scoreSentence_def Let_def)
  with assms(2) show ?thesis using splitOn_no_sep by blast
qed

text \<open>
  Claim C3, as the code has it. When every sentence candidate scores zero, no sentence is
  kept and the ranker returns the one-character string \<open>.\<close>: the final full stop is
  appended to the joined sentences in every case. This holds for the ranker of
  \<open>src/server/server.js\<close> and for the one of the earlier server file.
\<close>

theorem ranker_no_positive_score:
  "((\<forall>it \<in> set (scoredSentences c q t). score it = 0) \<longrightarrow>
      filterRelevantContent c q t = ''.'') \<and>
   ((\<forall>it \<in> set (scoredSentences_basic c q). score it = 0) \<longrightarrow>
      filterRelevantContent_basic c q = ''.'')"
proof (intro conjI impI)
  assume "\<forall>it \<in> set (scoredSentences c q t). score it = 0"
  then have "filter (\<lambda>it. 0 < score it) (scoredSentences c q t) = []"
    by (simp add: filter_empty_conv)
  then have "rankedSentences c q t = []" by (simp add: rankedSentences_sort)
  then show "filterRelevantContent c q t = ''.''"
    by (simp add: filterRelevantContent_take)
next
  assume "\<forall>it \<in> set (scoredSentences_basic c q). score it = 0"
  then have "filter (\<lambda>it. 0 < score it) (scoredSentences_basic c q) = []"
    by (simp add: filter_empty_conv)
  then have "rankedSentences_basic c q = []" by (simp add: rankedSentences_basic_sort)
  then show "filterRelevantContent_basic c q = ''.''"
    by (simp add: filterRelevantContent_basic_def relevantSentences_basic_def)
qed

text \<open>
  The theorem at a text of two sentences, neither of which holds the query \<open>zebra\<close>.
\<close>

theorem ranker_no_positive_score_witness:
  "map score (scoredSentences ''Cats sleep all day. Dogs bark at night'' ''zebra''
       ''general'') = [0, 0] \<and>
   filterRelevantContent ''Cats sleep all day. Dogs bark at night'' ''zebra''
       ''general'' = ''.'' \<and>
   map score (scoredSentences_basic ''Cats sleep all day. Dogs bark at night''
       ''zebra'') = [0, 0] \<and>
   filterRelevantContent_basic ''Cats sleep all day. Dogs bark at night'' ''zebra''
     = ''.''"
proof -
  have m: "map score (scoredSentences ''Cats sleep all day. Dogs bark at night''
      ''zebra'' ''general'') = [0, 0]"
    by code_simp
  then have "set (map score (scoredSentences ''Cats sleep all day. Dogs bark at night''
      ''zebra'' ''general'')) = {0}"
    by simp
  then have a: "\<forall>it \<in> set (scoredSentences ''Cats sleep all day. Dogs bark at night''
       ''zebra'' ''general''). score it = 0" by auto
  have n: "map score (scoredSentences_basic ''Cats sleep all day. Dogs bark at night''
      ''zebra'') = [0, 0]"
    by code_simp
  then have "set (map score (scoredSentences_basic ''Cats sleep all day. Dogs bark at night''
      ''zebra'')) = {0}"
    by simp
  then have b: "\<forall>it \<in> set (scoredSentences_basic
      ''Cats sleep all day. Dogs bark at night'' ''zebra''). score it = 0" by auto
  from m n a b ranker_no_positive_score
    [of "''Cats sleep all day. Dogs bark at night''" "''zebra''" "''general''"]
  show ?thesis by blast
qed

text \<open>
  Claim C3 as it is written fails: here both sentence candidates score zero, and the
  result is the string \<open>.\<close>, which is not the empty string.
\<close>

theorem ranker_empty_string_counterexample:
  "map score (scoredSentences ''Cats sleep all day. Dogs bark at night'' ''zebra''
      ''general'') = [0, 0] \<and>
   filterRelevantContent ''Cats sleep all day. Dogs bark at night'' ''zebra''
      ''general'' = ''.'' \<and>
   filterRelevantContent ''Cats sleep all day. Dogs bark at night'' ''zebra''
      ''general'' \<noteq> ''''"
  by code_simp

text \<open>
  Claim C4. The result of the ranker is the first seven ranked sentences, joined with
  \<open>. \<close> and closed with a full stop; they are at most seven, each of them is a scored
  sentence candidate of the text with a score above zero, and the result holds at most
  seven sentence-ending characters, however many sentences the text has.
\<close>

theorem ranker_at_most_seven:
  "filterRelevantContent c q t =
     join ''. '' (map sentence (take 7 (rankedSentences c q t))) @ ''.'' \<and>
   length (take 7 (rankedSentences c q t)) \<le> 7 \<and>
   (\<forall>it \<in> set (take 7 (rankedSentences c q t)).
      0 < score it \<and> it \<in> set (scoredSentences c q t)) \<and>
   length (filter isTerminal (filterRelevantContent c q t)) \<le> 7"
proof -
  let ?sel = "take 7 (rankedSentences c q t)"
  have sub: "set ?sel \<subseteq> set (filter (\<lambda>it. 0 < score it) (scoredSentences c q t))"
    using set_take_subset [of 7 "rankedSentences c q t"]
    by (simp add: rankedSentences_sort)
  then have pos: "\<forall>it \<in> set ?sel. 0 < score it \<and> it \<in> set (scoredSentences c q t)"
    by auto
  have "length (filter isTerminal (join ''. '' (map sentence ?sel))) =
      length (map sentence ?sel) - 1"
  proof (rule count_join)
    fix w x
    assume "w \<in> set (map sentence ?sel)" "x \<in> set w"
    then obtain it where "it \<in> set ?sel" "x \<in> set (sentence it)" by auto
    with pos show "\<not> isTerminal x" using sentence_no_terminal by blast
  qed
  moreover have "isTerminal CHR ''.''" by (simp add: isTerminal_def)
  ultimately have "length (filter isTerminal (filterRelevantContent c q t)) \<le> 7"
    by (simp add: filterRelevantContent_take)
  with pos show ?thesis by (simp add: filterRelevantContent_take)
qed

text \<open>
  The theorem at a text of eight sentences that all hold the query: seven are returned.
\<close>

theorem ranker_at_most_seven_witness:
  "length (scoredSentences
     ''zebra crossing.zebra crossing.zebra crossing.zebra crossing.zebra crossing.zebra crossing.zebra crossing.zebra crossing''
     ''zebra'' ''general'') = 8 \<and>
   filterRelevantContent
     ''zebra crossing.zebra crossing.zebra crossing.zebra crossing.zebra crossing.zebra crossing.zebra crossing.zebra crossing''
     ''zebra'' ''general'' =
     ''zebra crossing. zebra crossing. zebra crossing. zebra crossing. zebra crossing. zebra crossing. zebra crossing.'' \<and>
   list_all (\<lambda>it. 0 < score it) (take 7 (rankedSentences
     ''zebra crossing.zebra crossing.zebra crossing.zebra crossing.zebra crossing.zebra crossing.zebra crossing.zebra crossing''
     ''zebra'' ''general'')) \<and>
   length (filter isTerminal (filterRelevantContent
     ''zebra crossing.zebra crossing.zebra crossing.zebra crossing.zebra crossing.zebra crossing.zebra crossing.zebra crossing''
     ''zebra'' ''general'')) \<le> 7"
proof -
  have a: "length (scoredSentences
     ''zebra crossing.zebra crossing.zebra crossing.zebra crossing.zebra crossing.zebra crossing.zebra crossing.zebra crossing''
     ''zebra'' ''general'') = 8"
    by code_simp
  have b: "filterRelevantContent
     ''zebra crossing.zebra crossing.zebra crossing.zebra crossing.zebra crossing.zebra crossing.zebra crossing.zebra crossing''
     ''zebra'' ''general'' =
     ''zebra crossing. zebra crossing. zebra crossing. zebra crossing. zebra crossing. zebra crossing. zebra crossing.''"
    by code_simp
  from a b ranker_at_most_seven [of
     "''zebra crossing.zebra crossing.zebra crossing.zebra crossing.zebra crossing.zebra crossing.zebra crossing.zebra crossing''"
     "''zebra''" "''general''"]
  show ?thesis unfolding list_all_iff by blast
qed

text \<open>
  Claim C7. The ranking is stable. For every score \<open>v\<close>, the ranked sentences of score
  \<open>v\<close> are the sentence candidates of score \<open>v\<close> (those above zero) in the order of the
  text, and the ones among the sentences returned are the first of them, in that order.
  This holds for the ranker of \<open>src/server/server.js\<close>, which returns seven sentences, and
  for the one of the earlier server file, which returns five.
\<close>

theorem ranker_stable:
  "filter (\<lambda>it. score it = v) (rankedSentences c q t) =
     filter (\<lambda>it. score it = v) (filter (\<lambda>it. 0 < score it) (scoredSentences c q t)) \<and>
   prefix (filter (\<lambda>it. score it = v) (take 7 (rankedSentences c q t)))
     (filter (\<lambda>it. score it = v) (scoredSentences c q t)) \<and>
   filter (\<lambda>it. score it = v) (rankedSentences_basic c q) =
     filter (\<lambda>it. score it = v) (filter (\<lambda>it. 0 < score it) (scoredSentences_basic c q)) \<and>
   prefix (filter (\<lambda>it. score it = v) (take 5 (rankedSentences_basic c q)))
     (filter (\<lambda>it. score it = v) (scoredSentences_basic c q))"
proof -
  have pos: "prefix (filter (\<lambda>it. score it = v) (filter (\<lambda>it. 0 < score it) xs))
      (filter (\<lambda>it. score it = v) xs)" for xs :: "scoredSentence list"
  proof (cases "0 < v")
    case True
    then have "filter (\<lambda>it. score it = v) (filter (\<lambda>it. 0 < score it) xs) =
        filter (\<lambda>it. score it = v) xs"
      by (simp add: conj_commute cong: conj_cong)
    then show ?thesis by simp
  next
    case False
    then have "filter (\<lambda>it. score it = v) (filter (\<lambda>it. 0 < score it) xs) = []"
      by (auto simp: filter_empty_conv)
    then show ?thesis by simp
  qed
  have tk: "prefix (filter (\<lambda>it. score it = v) (take n ys)) (filter (\<lambda>it. score it = v) ys)"
    for n and ys :: "scoredSentence list"
    by (rule filter_mono_prefix) (rule take_is_prefix)
  have 1: "filter (\<lambda>it. score it = v) (rankedSentences c q t) =
     filter (\<lambda>it. score it = v) (filter (\<lambda>it. 0 < score it) (scoredSentences c q t))"
    unfolding rankedSentences_def by (rule stable_ranked)
  have 2: "filter (\<lambda>it. score it = v) (rankedSentences_basic c q) =
     filter (\<lambda>it. score it = v) (filter (\<lambda>it. 0 < score it) (scoredSentences_basic c q))"
    unfolding rankedSentences_basic_def by (rule stable_ranked)
  have 3: "prefix (filter (\<lambda>it. score it = v) (take 7 (rankedSentences c q t)))
     (filter (\<lambda>it. score it = v) (scoredSentences c q t))"
  proof -
    have "prefix (filter (\<lambda>it. score it = v) (take 7 (rankedSentences c q t)))
        (filter (\<lambda>it. score it = v) (rankedSentences c q t))"
      by (rule tk)
    then have "prefix (filter (\<lambda>it. score it = v) (take 7 (rankedSentences c q t)))
        (filter (\<lambda>it. score it = v) (filter (\<lambda>it. 0 < score it) (scoredSentences c q t)))"
      by (simp only: 1)
    then show ?thesis using pos [of "scoredSentences c q t"] by (rule prefix_order.trans)
  qed
  have 4: "prefix (filter (\<lambda>it. score it = v) (take 5 (rankedSentences_basic c q)))
     (filter (\<lambda>it. score it = v) (scoredSentences_basic c q))"
  proof -
    have "prefix (filter (\<lambda>it. score it = v) (take 5 (rankedSentences_basic c q)))
        (filter (\<lambda>it. score it = v) (rankedSentences_basic c q))"
      by (rule tk)
    then have "prefix (filter (\<lambda>it. score it = v) (take 5 (rankedSentences_basic c q)))
        (filter (\<lambda>it. score it = v)
          (filter (\<lambda>it. 0 < score it) (scoredSentences_basic c q)))"
      by (simp only: 2)
    then show ?thesis using pos [of "scoredSentences_basic c q"] by (rule prefix_order.trans)
  qed
  from 1 2 3 4 show ?thesis by blast
qed

text \<open>
  Claim C6. For a document type other than \<open>qa\<close>, the score that the ranker of
  \<open>src/server/server.js\<close> gives a sentence is the sum the specification describes: 3 for
  each query keyword longer than 3 that the lower-cased sentence contains (shorter
  keywords add nothing), 10 if it contains the lower-cased query, 15 for a definitional
  pattern. So the scores of the sentence candidates of a text are these sums.
\<close>

theorem richer_score_formula:
  assumes "t \<noteq> ''qa''"
  shows "score (scoreSentence q t s) = spec_score q s \<and>
     map score (scoredSentences c q t) = map (spec_score q) (sentencesOf c)"
  using assms
  by (simp add: scoredSentences_def scoreSentence_def spec_score_def definitional_def Let_def
      keyword_fold)

text \<open>
  The theorem at the query \<open>capital of France\<close>: the first sentence holds the keywords
  \<open>capital\<close> and \<open>france\<close> and the whole query (6 + 10), the second holds only \<open>of\<close>,
  which is too short to count.
\<close>

theorem richer_score_formula_witness:
  "''general'' \<noteq> ''qa'' \<and>
   score (scoreSentence ''capital of France'' ''general'' ''Paris is the capital of France'')
     = 16 \<and>
   map score (scoredSentences
     ''Paris is the capital of France. It has a population of over 2 million''
     ''capital of France'' ''general'') = [16, 0]"
proof -
  have a: "''general'' \<noteq> ''qa''" by simp
  have b: "spec_score ''capital of France'' ''Paris is the capital of France'' = 16"
    by code_simp
  have c: "map (spec_score ''capital of France'')
      (sentencesOf ''Paris is the capital of France. It has a population of over 2 million'')
      = [16, 0]"
    by code_simp
  from a b c richer_score_formula [OF a, of "''capital of France''"
      "''Paris is the capital of France''"
      "''Paris is the capital of France. It has a population of over 2 million''"]
  show ?thesis by simp
qed

section \<open>Properties of the page-reference extractor\<close>

lemma matchPageMarker_Some:
  assumes "matchPageMarker s = Some (ds, r)"
  shows "s = ''[Page '' @ ds @ '']'' @ r \<and> ds \<noteq> [] \<and> (\<forall>c \<in> set ds. isDigit c)"
proof -
  from assms have st: "startsWith s ''[Page ''"
    by (simp add: matchPageMarker_def split: if_splits)
  then obtain t where t: "s = ''[Page '' @ t" by (auto simp: startsWith_iff)
  from assms st have ds: "ds = takeWhile isDigit (drop 6 s)" "ds \<noteq> []"
    and br: "startsWith (dropWhile isDigit (drop 6 s)) '']''"
    and r: "r = drop 1 (dropWhile isDigit (drop 6 s))"
    by (auto simp: matchPageMarker_def Let_def split: if_splits)
  from t have d6: "drop 6 s = t" by simp
  from br obtain r' where r': "dropWhile isDigit t = '']'' @ r'"
    by (auto simp: startsWith_iff d6)
  with r d6 have "r = r'" by simp
  moreover have "t = takeWhile isDigit t @ dropWhile isDigit t" by simp
  ultimately have "t = ds @ '']'' @ r" using ds(1) d6 r' by simp
  with t have "s = ''[Page '' @ ds @ '']'' @ r" by simp
  moreover from ds(1) have "\<forall>c \<in> set ds. isDigit c" by (auto dest: set_takeWhileD)
  ultimately show ?thesis using ds(2) by blast
qed

lemma inMarker_Cons: "inMarker s n \<Longrightarrow> inMarker (c # s) n"
proof -
  assume "inMarker s n"
  then obtain a ds b where "s = a @ ''[Page '' @ ds @ '']'' @ b" "ds \<noteq> []"
      "\<forall>c \<in> set ds. isDigit c" "parseInt ds = n"
    unfolding inMarker_def by blast
  then have "c # s = (c # a) @ ''[Page '' @ ds @ '']'' @ b" by simp
  with \<open>ds \<noteq> []\<close> \<open>\<forall>c \<in> set ds. isDigit c\<close> \<open>parseInt ds = n\<close>
  show ?thesis unfolding inMarker_def by blast
qed

lemma inMarker_append: "inMarker s n \<Longrightarrow> inMarker (p @ s) n"
  by (induction p) (simp_all add: inMarker_Cons)

lemma pageMatches_inMarker: "n \<in> set (pageMatches s) \<Longrightarrow> inMarker s n"
proof (induction s rule: pageMatches.induct)
  case 1
  then show ?case by simp
next
  case (2 c cs)
  show ?case
  proof (cases "matchPageMarker (c # cs)")
    case None
    with 2(1) [OF None] 2(3) have "inMarker cs n" by simp
    then show ?thesis by (rule inMarker_Cons)
  next
    case (Some m)
    obtain ds r where m: "m = (ds, r)" by (cases m)
    from Some m have sh: "c # cs = ''[Page '' @ ds @ '']'' @ r" "ds \<noteq> []"
        "\<forall>c \<in> set ds. isDigit c"
      using matchPageMarker_Some [of "c # cs" ds r] by auto
    from 2 Some m have "n = parseInt ds \<or> n \<in> set (pageMatches r)" by auto
    then show ?thesis
    proof
      assume "n = parseInt ds"
      with sh have "c # cs = [] @ ''[Page '' @ ds @ '']'' @ r \<and> ds \<noteq> [] \<and>
          (\<forall>c \<in> set ds. isDigit c) \<and> parseInt ds = n" by simp
      then show ?thesis unfolding inMarker_def by blast
    next
      assume "n \<in> set (pageMatches r)"
      with 2(2) [OF Some] m have "inMarker r n" by simp
      then have "inMarker ((''[Page '' @ ds @ '']'') @ r) n" by (rule inMarker_append)
      with sh(1) show ?thesis by simp
    qed
  qed
qed

lemma newSet_fold:
  "distinct acc \<Longrightarrow>
   distinct (foldl (\<lambda>acc x. if x \<in> set acc then acc else acc @ [x]) acc xs) \<and>
   set (foldl (\<lambda>acc x. if x \<in> set acc then acc else acc @ [x]) acc xs) = set acc \<union> set xs"
  by (induction xs arbitrary: acc) auto

lemma newSet_props: "distinct (newSet xs) \<and> set (newSet xs) = set xs"
  using newSet_fold [of "[]" xs] by (simp add: newSet_def)

lemma sortCmp_nat: "sortCmp (\<lambda>a b. int a - int b) xs = sort xs"
  by (rule sortCmp_key) auto

text \<open>
  Claim C1, as the code has it. For every text whose page markers all hold numbers below
  \<open>2^53\<close>, the page-reference extractor returns natural numbers below \<open>2^53\<close> in strictly
  ascending order, without duplicates, and each of them is the number read from the digits
  of a marker \<open>[Page N]\<close> of the text. The numbers need not be positive: the marker
  \<open>[Page 0]\<close> gives 0. The bound is the range in which the Numbers of the code are the
  integers of the markers; beyond it the code rounds, and a returned value need not stand
  in any marker.
\<close>

theorem extractPageNumbers_sorted_from_markers:
  assumes safe: "exactMarkers content"
  shows "sorted_wrt (<) (extractPageNumbers content) \<and>
   distinct (extractPageNumbers content) \<and>
   set (extractPageNumbers content) = set (pageMatches content) \<and>
   (\<forall>n \<in> set (extractPageNumbers content).
      n < 2 ^ 53 \<and>
      (\<exists>a ds b. content = a @ ''[Page '' @ ds @ '']'' @ b \<and> ds \<noteq> [] \<and>
        (\<forall>c \<in> set ds. isDigit c) \<and> parseInt ds = n))"
proof -
  from safe have bound: "\<forall>n \<in> set (pageMatches content). n < 2 ^ 53"
    by (simp add: exactMarkers_def list_all_iff)
  have e: "extractPageNumbers content = sort (newSet (pageMatches content))"
    by (simp add: extractPageNumbers_def sortCmp_nat)
  have d: "distinct (extractPageNumbers content)"
    by (simp add: e newSet_props)
  have s: "sorted (extractPageNumbers content)" by (simp add: e)
  have st: "set (extractPageNumbers content) = set (pageMatches content)"
    by (simp add: e newSet_props)
  from s d have "sorted_wrt (<) (extractPageNumbers content)"
    by (simp add: strict_sorted_iff)
  moreover have "\<forall>n \<in> set (extractPageNumbers content).
      \<exists>a ds b. content = a @ ''[Page '' @ ds @ '']'' @ b \<and> ds \<noteq> [] \<and>
        (\<forall>c \<in> set ds. isDigit c) \<and> parseInt ds = n"
    using pageMatches_inMarker [of _ content] unfolding st inMarker_def by blast
  moreover have "\<forall>n \<in> set (extractPageNumbers content). n < 2 ^ 53"
    using bound unfolding st .
  ultimately show ?thesis using d st by blast
qed

text \<open>
  The theorem at a text with four markers for two pages.
\<close>

theorem extractPageNumbers_sorted_from_markers_witness:
  "exactMarkers ''Paris [Page 3] is the capital. [Page 7] It has people [Page 7][Page 3].'' \<and>
   pageMatches ''Paris [Page 3] is the capital. [Page 7] It has people [Page 7][Page 3].''
     = [3, 7, 7, 3] \<and>
   extractPageNumbers ''Paris [Page 3] is the capital. [Page 7] It has people [Page 7][Page 3].''
     = [3, 7] \<and>
   sorted_wrt (<) (extractPageNumbers
     ''Paris [Page 3] is the capital. [Page 7] It has people [Page 7][Page 3].'') \<and>
   distinct (extractPageNumbers
     ''Paris [Page 3] is the capital. [Page 7] It has people [Page 7][Page 3].'') \<and>
   (\<exists>a ds b.
      ''Paris [Page 3] is the capital. [Page 7] It has people [Page 7][Page 3].'' =
        a @ ''[Page '' @ ds @ '']'' @ b \<and> ds \<noteq> [] \<and> list_all isDigit ds \<and>
      parseInt ds = 7)"
proof -
  have a: "extractPageNumbers
      ''Paris [Page 3] is the capital. [Page 7] It has people [Page 7][Page 3].'' = [3, 7]"
    by code_simp
  then have m: "7 \<in> set (extractPageNumbers
      ''Paris [Page 3] is the capital. [Page 7] It has people [Page 7][Page 3].'')"
    by simp
  have p: "pageMatches
      ''Paris [Page 3] is the capital. [Page 7] It has people [Page 7][Page 3].'' = [3, 7, 7, 3]"
    by code_simp
  have e: "exactMarkers
      ''Paris [Page 3] is the capital. [Page 7] It has people [Page 7][Page 3].''"
    unfolding exactMarkers_def p by simp
  from a m p e extractPageNumbers_sorted_from_markers [OF e]
  show ?thesis unfolding list_all_iff by blast
qed

text \<open>
  Claim C1 as it is written fails: \<open>\d+\<close> matches the digit \<open>0\<close>, and the extractor returns
  the number 0, which is not positive.
\<close>

theorem extractPageNumbers_zero_counterexample:
  "extractPageNumbers ''[Page 0]'' = [0] \<and> \<not> 0 < hd (extractPageNumbers ''[Page 0]'')"
  by code_simp

section \<open>Properties of the answer-request assembler\<close>

lemma includesStr_mid: "includesStr (a @ p @ b) p"
  unfolding includesStr_iff by blast

lemma fallback_enhanced_has_query: "includesStr (enhancedFallback q refs) q"
proof -
  have "enhancedFallback q refs =
      (''Based on the document, I found relevant information about '' @ dq) @ q @
      (dq @ ''. '' @ (if length refs > 0 then pageRefTextOf refs else ''''))"
    by (simp add: enhancedFallback_def pageRefTextOf_def)
  then show ?thesis by (simp only: includesStr_mid)
qed

lemma fallback_enhanced_has_pages:
  "refs \<noteq> [] \<Longrightarrow> includesStr (enhancedFallback q refs) (pageRefTextOf refs)"
proof -
  assume "refs \<noteq> []"
  then have "enhancedFallback q refs =
      (''Based on the document, I found relevant information about '' @ dq @ q @ dq @ ''. '')
      @ pageRefTextOf refs @ []"
    by (simp add: enhancedFallback_def pageRefTextOf_def)
  then show ?thesis by (simp only: includesStr_mid)
qed

lemma fallback_natural_has_query: "includesStr (naturalFallback q refs) q"
proof (cases "refs = []")
  case True
  then have "naturalFallback q refs =
      (''I couldn't find specific information about '' @ dq) @ q @
      (dq @ '' in the document. Please try asking about a different topic.'')"
    by (simp add: naturalFallback_def)
  then show ?thesis by (simp only: includesStr_mid)
next
  case False
  then have "naturalFallback q refs =
      (''I found some information about '' @ dq) @ q @
      (dq @ '' in the document. '' @ pageRefTextOf refs)"
    by (simp add: naturalFallback_def pageRefTextOf_def)
  then show ?thesis by (simp only: includesStr_mid)
qed

lemma fallback_natural_has_pages:
  "refs \<noteq> [] \<Longrightarrow> includesStr (naturalFallback q refs) (pageRefTextOf refs)"
proof -
  assume "refs \<noteq> []"
  then have "naturalFallback q refs =
      (''I found some information about '' @ dq @ q @ dq @ '' in the document. '')
      @ pageRefTextOf refs @ []"
    by (simp add: naturalFallback_def pageRefTextOf_def)
  then show ?thesis by (simp only: includesStr_mid)
qed

lemma enhanced_raise:
  assumes "GenerateContent m p \<in> set (snd (generateEnhancedAnswer sv q ctx refs t d))"
    "isl (generateContent sv m p)"
  shows "fst (generateEnhancedAnswer sv q ctx refs t d) = enhancedFallback q refs"
  using assms
  by (auto simp: generateEnhancedAnswer_def Let_def split: if_splits sum.splits)

lemma natural_raise:
  assumes "GenerateContent m p \<in> set (snd (generateNaturalAnswer sv q ctx refs d))"
    "isl (generateContent sv m p)"
  shows "fst (generateNaturalAnswer sv q ctx refs d) = naturalFallback q refs"
  using assms
  by (auto simp: generateNaturalAnswer_def Let_def split: if_splits sum.splits)

lemma chat_generate:
  assumes g: "GenerateContent m p \<in> set (snd (chat sv pdfs body))"
  shows "\<exists>q ctx refs t d n.
     reqQuery body = Some q \<and>
     GenerateContent m p \<in> set (snd (generateEnhancedAnswer sv q ctx refs t d)) \<and>
     fst (chat sv pdfs body) =
       Json \<lparr>resQuery = q, results = fst (generateEnhancedAnswer sv q ctx refs t d),
             pageReferences = refs, count = n\<rparr>"
proof -
  let ?k = "if reqDepth body = Some ''deep'' \<or> reqDepth body = Some ''deeper''
            then 10 else 7 :: nat"
  have "\<not> (reqQuery body = None \<or> reqQuery body = Some '''')"
  proof
    assume "reqQuery body = None \<or> reqQuery body = Some ''''"
    then have "chat sv pdfs body = (BadRequest ''Query parameter is required'', [])"
      by (rule chat_no_query)
    with g show False by simp
  qed
  then obtain q where q: "reqQuery body = Some q" "q \<noteq> ''''"
    by (cases "reqQuery body") auto
  have "\<not> (reqPdfId body = None \<or> reqPdfId body = Some '''' \<or>
     (\<exists>i. reqPdfId body = Some i \<and> pdfs i = None))"
  proof
    assume "reqPdfId body = None \<or> reqPdfId body = Some '''' \<or>
     (\<exists>i. reqPdfId body = Some i \<and> pdfs i = None)"
    with q have "chat sv pdfs body = (BadRequest ''Valid PDF ID is required'', [])"
      by (rule chat_no_pdf)
    with g show False by simp
  qed
  then obtain i pd where i: "reqPdfId body = Some i" "i \<noteq> ''''" "pdfs i = Some pd"
    by (cases "reqPdfId body"; cases "pdfs (the (reqPdfId body))") auto
  have ns: "\<not> isSmallTalk q"
  proof
    assume "isSmallTalk q"
    with q i have "chat sv pdfs body =
        (Json \<lparr>resQuery = q, results = getSmallTalkResponse q, pageReferences = [],
               count = 0\<rparr>, [])"
      by (rule chat_small)
    with g show False by simp
  qed
  have "retrieverInvoke sv i ?k q \<noteq> Inl e" for e
  proof
    assume "retrieverInvoke sv i ?k q = Inl e"
    with q i ns have "snd (chat sv pdfs body) = [RetrieverInvoke i ?k q]"
      by (rule chat_retrieval_error)
    with g show False by simp
  qed
  moreover have "retrieverInvoke sv i ?k q \<noteq> Inr []"
  proof
    assume "retrieverInvoke sv i ?k q = Inr []"
    with q i ns have "snd (chat sv pdfs body) = [RetrieverInvoke i ?k q]"
      by (rule chat_no_results)
    with g show False by simp
  qed
  ultimately obtain docs where docs: "retrieverInvoke sv i ?k q = Inr docs" "docs \<noteq> []"
    by (cases "retrieverInvoke sv i ?k q") auto
  define t where "t = (if docType pd = '''' then ''general'' else docType pd)"
  define d where "d = (case reqDepth body of None \<Rightarrow> ''normal''
                 | Some x \<Rightarrow> if x = '''' then ''normal'' else x)"
  define refs where "refs = extractPageNumbers (join '' '' docs)"
  define ctx where "ctx = filterRelevantContent (join '' '' docs) q t"
  have c: "chat sv pdfs body =
     (Json \<lparr>resQuery = q, results = fst (generateEnhancedAnswer sv q ctx refs t d),
            pageReferences = refs, count = length docs\<rparr>,
      RetrieverInvoke i ?k q # snd (generateEnhancedAnswer sv q ctx refs t d))"
    by (rule chat_answer [where pdfs = pdfs and pd = pd, OF q i ns docs])
      (simp_all only: t_def d_def refs_def ctx_def)
  with g have "GenerateContent m p \<in> set (snd (generateEnhancedAnswer sv q ctx refs t d))"
    by simp
  with q(1) c show ?thesis by auto
qed

text \<open>
  Claim C9. When the key is not set, or a generation call that the assembler issued
  raised an error, the assembler returns the templated fallback text instead of raising;
  that text contains the query and, when the page list is not empty, the page-citation
  fragment. This holds for \<open>generateEnhancedAnswer\<close> and for \<open>generateNaturalAnswer\<close>.
  A chat request in which a generation call raised is answered with a payload whose answer
  text contains the query and, when page references were found, the citation fragment.
\<close>

theorem generation_failure_is_masked:
  "((GOOGLE_API_KEY sv = '''' \<or>
     (\<exists>m p. GenerateContent m p \<in> set (snd (generateEnhancedAnswer sv q ctx refs t d)) \<and>
            isl (generateContent sv m p))) \<longrightarrow>
      fst (generateEnhancedAnswer sv q ctx refs t d) = enhancedFallback q refs) \<and>
   includesStr (enhancedFallback q refs) q \<and>
   (refs \<noteq> [] \<longrightarrow> includesStr (enhancedFallback q refs) (pageRefTextOf refs)) \<and>
   ((GOOGLE_API_KEY sv = '''' \<or>
     (\<exists>m p. GenerateContent m p \<in> set (snd (generateNaturalAnswer sv q ctx refs d)) \<and>
            isl (generateContent sv m p))) \<longrightarrow>
      fst (generateNaturalAnswer sv q ctx refs d) = naturalFallback q refs) \<and>
   includesStr (naturalFallback q refs) q \<and>
   (refs \<noteq> [] \<longrightarrow> includesStr (naturalFallback q refs) (pageRefTextOf refs)) \<and>
   ((\<exists>m p. GenerateContent m p \<in> set (snd (chat sv pdfs body)) \<and>
            isl (generateContent sv m p)) \<longrightarrow>
      (\<exists>pl. fst (chat sv pdfs body) = Json pl \<and> reqQuery body = Some (resQuery pl) \<and>
         includesStr (results pl) (resQuery pl) \<and>
         (pageReferences pl \<noteq> [] \<longrightarrow>
            includesStr (results pl) (pageRefTextOf (pageReferences pl)))))"
proof -
  have e: "fst (generateEnhancedAnswer sv q ctx refs t d) = enhancedFallback q refs"
    if "GOOGLE_API_KEY sv = '''' \<or>
     (\<exists>m p. GenerateContent m p \<in> set (snd (generateEnhancedAnswer sv q ctx refs t d)) \<and>
            isl (generateContent sv m p))"
    using that
  proof
    assume "GOOGLE_API_KEY sv = ''''"
    then show ?thesis by (simp add: generateEnhancedAnswer_def)
  next
    assume "\<exists>m p. GenerateContent m p \<in> set (snd (generateEnhancedAnswer sv q ctx refs t d)) \<and>
            isl (generateContent sv m p)"
    then show ?thesis using enhanced_raise by blast
  qed
  have n: "fst (generateNaturalAnswer sv q ctx refs d) = naturalFallback q refs"
    if "GOOGLE_API_KEY sv = '''' \<or>
     (\<exists>m p. GenerateContent m p \<in> set (snd (generateNaturalAnswer sv q ctx refs d)) \<and>
            isl (generateContent sv m p))"
    using that
  proof
    assume "GOOGLE_API_KEY sv = ''''"
    then show ?thesis by (simp add: generateNaturalAnswer_def)
  next
    assume "\<exists>m p. GenerateContent m p \<in> set (snd (generateNaturalAnswer sv q ctx refs d)) \<and>
            isl (generateContent sv m p)"
    then show ?thesis using natural_raise by blast
  qed
  have c: "\<exists>pl. fst (chat sv pdfs body) = Json pl \<and> reqQuery body = Some (resQuery pl) \<and>
         includesStr (results pl) (resQuery pl) \<and>
         (pageReferences pl \<noteq> [] \<longrightarrow>
            includesStr (results pl) (pageRefTextOf (pageReferences pl)))"
    if "\<exists>m p. GenerateContent m p \<in> set (snd (chat sv pdfs body)) \<and>
            isl (generateContent sv m p)"
  proof -
    from that obtain m p where g: "GenerateContent m p \<in> set (snd (chat sv pdfs body))"
      and r: "isl (generateContent sv m p)" by blast
    from chat_generate [OF g] obtain q' ctx' refs' t' d' k where
      q': "reqQuery body = Some q'"
      and g': "GenerateContent m p \<in> set (snd (generateEnhancedAnswer sv q' ctx' refs' t' d'))"
      and f: "fst (chat sv pdfs body) =
        Json \<lparr>resQuery = q', results = fst (generateEnhancedAnswer sv q' ctx' refs' t' d'),
             pageReferences = refs', count = k\<rparr>"
      by blast
    from g' r have "fst (generateEnhancedAnswer sv q' ctx' refs' t' d') = enhancedFallback q' refs'"
      by (rule enhanced_raise)
    with f have f': "fst (chat sv pdfs body) =
        Json \<lparr>resQuery = q', results = enhancedFallback q' refs',
             pageReferences = refs', count = k\<rparr>" by simp
    show ?thesis
      using f' q' fallback_enhanced_has_query [of q' refs']
        fallback_enhanced_has_pages [of refs' q']
      by simp
  qed
  from e n c fallback_enhanced_has_query [of q refs] fallback_enhanced_has_pages [of refs q]
    fallback_natural_has_query [of q refs] fallback_natural_has_pages [of refs q]
  show ?thesis by blast
qed

text \<open>
  The theorem at a chat request whose generation call fails with the error \<open>503\<close>: the
  response is a payload with the fallback text, the page 3 and the count 1.
\<close>

theorem generation_failure_is_masked_witness:
  "isl (generateContent
      \<lparr>GOOGLE_API_KEY = ''key'', retrieverInvoke = (\<lambda>c k q. Inr [''Paris [Page 3] is big.'']),
       generateContent = (\<lambda>m p. Inl (Error ''503''))\<rparr>
      (enhancedModel ''normal'')
      (enhancedPrompt ''general'' ''Paris'' ''normal'' ''Paris [Page 3] is big.''
         (enhancedDepthInstruction ''normal'') (typeInstructionOf ''general'')
         (pageRefTextOf [3]))) \<and>
   chat \<lparr>GOOGLE_API_KEY = ''key'', retrieverInvoke = (\<lambda>c k q. Inr [''Paris [Page 3] is big.'']),
         generateContent = (\<lambda>m p. Inl (Error ''503''))\<rparr>
        [''doc1'' \<mapsto> \<lparr>filename = ''a.pdf'', uploadedAt = ''2025'', docType = ''general''\<rparr>]
        \<lparr>reqQuery = Some ''Paris'', reqPdfId = Some ''doc1'', reqDepth = None\<rparr> =
     (Json \<lparr>resQuery = ''Paris'',
            results = ''Based on the document, I found relevant information about '' @ dq @
               ''Paris'' @ dq @ ''. This information can be found on pages 3.'',
            pageReferences = [3], count = 1\<rparr>,
      [RetrieverInvoke ''doc1'' 7 ''Paris'',
       GenerateContent (enhancedModel ''normal'')
         (enhancedPrompt ''general'' ''Paris'' ''normal'' ''Paris [Page 3] is big.''
            (enhancedDepthInstruction ''normal'') (typeInstructionOf ''general'')
            (pageRefTextOf [3]))]) \<and>
   includesStr (enhancedFallback ''Paris'' [3]) ''Paris'' \<and>
   includesStr (enhancedFallback ''Paris'' [3]) (pageRefTextOf [3])"
proof -
  let ?sv = "\<lparr>GOOGLE_API_KEY = ''key'',
      retrieverInvoke = (\<lambda>c k q. Inr [''Paris [Page 3] is big.'']),
      generateContent = (\<lambda>m p. Inl (Error ''503''))\<rparr>"
  let ?pdfs = "[''doc1'' \<mapsto> \<lparr>filename = ''a.pdf'', uploadedAt = ''2025'', docType = ''general''\<rparr>]"
  let ?body = "\<lparr>reqQuery = Some ''Paris'', reqPdfId = Some ''doc1'', reqDepth = None\<rparr>"
  let ?m = "enhancedModel ''normal''"
  let ?p = "enhancedPrompt ''general'' ''Paris'' ''normal'' ''Paris [Page 3] is big.''
         (enhancedDepthInstruction ''normal'') (typeInstructionOf ''general'')
         (pageRefTextOf [3])"
  have r: "isl (generateContent ?sv ?m ?p)" by simp
  have ns: "\<not> isSmallTalk ''Paris''" by code_simp
  have refs: "extractPageNumbers ''Paris [Page 3] is big.'' = [3]" by code_simp
  have ctx: "filterRelevantContent ''Paris [Page 3] is big.'' ''Paris'' ''general''
      = ''Paris [Page 3] is big.''" by code_simp
  have fb: "enhancedFallback ''Paris'' [3] =
      ''Based on the document, I found relevant information about '' @ dq @
               ''Paris'' @ dq @ ''. This information can be found on pages 3.''"
    by code_simp
  have c: "chat ?sv ?pdfs ?body =
     (Json \<lparr>resQuery = ''Paris'', results = enhancedFallback ''Paris'' [3],
            pageReferences = [3], count = 1\<rparr>,
      [RetrieverInvoke ''doc1'' 7 ''Paris'', GenerateContent ?m ?p])"
    using ns by (simp add: chat_def refs ctx generateEnhancedAnswer_def Let_def)
  then have "GenerateContent ?m ?p \<in> set (snd (chat ?sv ?pdfs ?body))" by simp
  with r have h: "\<exists>m p. GenerateContent m p \<in> set (snd (chat ?sv ?pdfs ?body)) \<and>
      isl (generateContent ?sv m p)" by blast
  from h generation_failure_is_masked [of ?sv "''Paris''" "''ctx''" "[3]" "''general''"
      "''normal''" ?pdfs ?body]
  obtain pl where pl: "fst (chat ?sv ?pdfs ?body) = Json pl"
      "includesStr (results pl) (resQuery pl)"
      "pageReferences pl \<noteq> [] \<longrightarrow> includesStr (results pl) (pageRefTextOf (pageReferences pl))"
    by blast
  from pl(1) c have "pl = \<lparr>resQuery = ''Paris'', results = enhancedFallback ''Paris'' [3],
            pageReferences = [3], count = 1\<rparr>" by simp
  with pl(2,3) have "includesStr (enhancedFallback ''Paris'' [3]) ''Paris''"
    "includesStr (enhancedFallback ''Paris'' [3]) (pageRefTextOf [3])" by simp_all
  with r c fb show ?thesis by simp
qed

lemma addPageReferences_cases:
  "addPageReferences p r = r \<or> addPageReferences p r = r @ '' '' @ p"
  by (simp add: addPageReferences_def)

lemma retryPrompt_differs: "retryPromptOf q ctx \<noteq> naturalPrompt q ctx di pr"
  by (simp add: retryPromptOf_def naturalPrompt_def unlines_def)

text \<open>
  Claim C8, as the code has it. In \<open>generateNaturalAnswer\<close>, when the key is set and the
  first call returns a text: if the text is a non-answer (shorter than 50 characters, or
  holding one of the two refusal phrases), exactly one more call is issued, with the retry
  prompt, which differs from the first prompt; the text of the retry is not tested again,
  and the answer is that text, with at most the page-citation fragment appended; if the
  first text is not a non-answer, no retry is issued. No run issues more than two
  generation calls. \<open>generateEnhancedAnswer\<close> issues at most one call and never a retry.
\<close>

theorem natural_retry_policy:
  "(GOOGLE_API_KEY sv \<noteq> '''' \<and>
    generateContent sv (naturalModel d)
      (naturalPrompt q ctx (naturalDepthInstruction d) (pageRefTextOf refs)) = Inr text \<longrightarrow>
      (isNonAnswer text \<longrightarrow>
         snd (generateNaturalAnswer sv q ctx refs d) =
           [GenerateContent (naturalModel d)
              (naturalPrompt q ctx (naturalDepthInstruction d) (pageRefTextOf refs)),
            GenerateContent (naturalModel d) (retryPromptOf q ctx)] \<and>
         (\<forall>r. generateContent sv (naturalModel d) (retryPromptOf q ctx) = Inr r \<longrightarrow>
            fst (generateNaturalAnswer sv q ctx refs d) =
              addPageReferences (pageRefTextOf refs) r \<and>
            (fst (generateNaturalAnswer sv q ctx refs d) = r \<or>
             fst (generateNaturalAnswer sv q ctx refs d) = r @ '' '' @ pageRefTextOf refs))) \<and>
      (\<not> isNonAnswer text \<longrightarrow>
         snd (generateNaturalAnswer sv q ctx refs d) =
           [GenerateContent (naturalModel d)
              (naturalPrompt q ctx (naturalDepthInstruction d) (pageRefTextOf refs))])) \<and>
   retryPromptOf q ctx \<noteq> naturalPrompt q ctx (naturalDepthInstruction d) (pageRefTextOf refs) \<and>
   length (snd (generateNaturalAnswer sv q ctx refs d)) \<le> 2 \<and>
   length (snd (generateEnhancedAnswer sv q ctx refs t d)) \<le> 1"
proof -
  let ?M = "naturalModel d"
  let ?P = "naturalPrompt q ctx (naturalDepthInstruction d) (pageRefTextOf refs)"
  let ?R = "retryPromptOf q ctx"
  have a: "snd (generateNaturalAnswer sv q ctx refs d) =
      [GenerateContent ?M ?P, GenerateContent ?M ?R]"
    if "GOOGLE_API_KEY sv \<noteq> ''''" "generateContent sv ?M ?P = Inr text" "isNonAnswer text"
    using that by (simp add: generateNaturalAnswer_def Let_def split: sum.splits)
  have b: "fst (generateNaturalAnswer sv q ctx refs d) = addPageReferences (pageRefTextOf refs) r"
    if "GOOGLE_API_KEY sv \<noteq> ''''" "generateContent sv ?M ?P = Inr text" "isNonAnswer text"
      "generateContent sv ?M ?R = Inr r" for r
    using that by (simp add: generateNaturalAnswer_def Let_def)
  have c: "snd (generateNaturalAnswer sv q ctx refs d) = [GenerateContent ?M ?P]"
    if "GOOGLE_API_KEY sv \<noteq> ''''" "generateContent sv ?M ?P = Inr text" "\<not> isNonAnswer text"
    using that by (simp add: generateNaturalAnswer_def Let_def)
  have l2: "length (snd (generateNaturalAnswer sv q ctx refs d)) \<le> 2"
    by (simp add: generateNaturalAnswer_def Let_def split: sum.splits)
  have l1: "length (snd (generateEnhancedAnswer sv q ctx refs t d)) \<le> 1"
    by (simp add: generateEnhancedAnswer_def Let_def split: sum.splits)
  from a b c l1 l2 retryPrompt_differs [of q ctx]
    addPageReferences_cases [of "pageRefTextOf refs"]
  show ?thesis by metis
qed

text \<open>
  Claim C8 as it is written fails in two places. The first text \<open>Short.\<close> is below the
  length threshold, and \<open>generateEnhancedAnswer\<close> issues one call only, no retry. In
  \<open>generateNaturalAnswer\<close> the text of the retry, again \<open>Short.\<close>, is not returned as it
  is: the page-citation fragment is appended to it.
\<close>

theorem single_retry_counterexample:
  "isNonAnswer ''Short.'' \<and>
   length (snd (generateEnhancedAnswer
     \<lparr>GOOGLE_API_KEY = ''key'', retrieverInvoke = (\<lambda>c k q. Inr []),
      generateContent = (\<lambda>m p. Inr ''Short.'')\<rparr>
     ''Paris'' ''Paris is big.'' [3] ''general'' ''normal'')) = 1 \<and>
   fst (generateNaturalAnswer
     \<lparr>GOOGLE_API_KEY = ''key'', retrieverInvoke = (\<lambda>c k q. Inr []),
      generateContent = (\<lambda>m p. Inr ''Short.'')\<rparr>
     ''Paris'' ''Paris is big.'' [3] ''normal'') =
     ''Short. This information can be found on pages 3.''"
  by code_simp

text \<open>
  The theorem for a model that always answers \<open>Short.\<close>: one retry, and the answer is the
  text of the retry with the citation fragment added.
\<close>

theorem natural_retry_policy_witness:
  "GOOGLE_API_KEY \<lparr>GOOGLE_API_KEY = ''key'', retrieverInvoke = (\<lambda>c k q. Inr []),
      generateContent = (\<lambda>m p. Inr ''Short.'')\<rparr> \<noteq> '''' \<and>
   isNonAnswer ''Short.'' \<and>
   snd (generateNaturalAnswer
     \<lparr>GOOGLE_API_KEY = ''key'', retrieverInvoke = (\<lambda>c k q. Inr []),
      generateContent = (\<lambda>m p. Inr ''Short.'')\<rparr>
     ''Paris'' ''Paris is big.'' [3] ''normal'') =
     [GenerateContent (naturalModel ''normal'')
        (naturalPrompt ''Paris'' ''Paris is big.'' (naturalDepthInstruction ''normal'')
           (pageRefTextOf [3])),
      GenerateContent (naturalModel ''normal'') (retryPromptOf ''Paris'' ''Paris is big.'')] \<and>
   fst (generateNaturalAnswer
     \<lparr>GOOGLE_API_KEY = ''key'', retrieverInvoke = (\<lambda>c k q. Inr []),
      generateContent = (\<lambda>m p. Inr ''Short.'')\<rparr>
     ''Paris'' ''Paris is big.'' [3] ''normal'') =
     addPageReferences (pageRefTextOf [3]) ''Short.''"
proof -
  let ?sv = "\<lparr>GOOGLE_API_KEY = ''key'', retrieverInvoke = (\<lambda>c k q. Inr []),
      generateContent = (\<lambda>m p. Inr ''Short.'')\<rparr>"
  have k: "GOOGLE_API_KEY ?sv \<noteq> ''''" by simp
  have f: "generateContent ?sv (naturalModel ''normal'')
      (naturalPrompt ''Paris'' ''Paris is big.'' (naturalDepthInstruction ''normal'')
         (pageRefTextOf [3])) = Inr ''Short.''" by simp
  have r: "generateContent ?sv (naturalModel ''normal'')
      (retryPromptOf ''Paris'' ''Paris is big.'') = Inr ''Short.''" by simp
  have n: "isNonAnswer ''Short.''" by code_simp
  from k f r n natural_retry_policy [of ?sv "''normal''" "''Paris''" "''Paris is big.''" "[3]"
      "''Short.''" "''general''"]
  show ?thesis by blast
qed

section \<open>Properties of the context cleaner\<close>

lemma includesStr_Cons: "includesStr cs p \<Longrightarrow> includesStr (c # cs) p"
  by simp

lemma removePageMarkers_id: "CHR ''['' \<notin> set s \<Longrightarrow> removePageMarkers s = s"
proof (induction s rule: removePageMarkers.induct)
  case 1
  then show ?case by simp
next
  case (2 c cs)
  then have "c \<noteq> CHR ''[''" by auto
  then have n: "matchPageMarker (c # cs) = None" by (simp add: matchPageMarker_def)
  with 2 show ?case by simp
qed

lemma takeWhile_dots:
  assumes "10 \<le> length (takeWhile isDot s)"
  shows "startsWith s ''..........''"
proof -
  have "takeWhile isDot s = replicate (length (takeWhile isDot s)) CHR ''.''"
    by (rule replicate_length_same [symmetric]) (auto dest: set_takeWhileD simp: isDot_def)
  moreover obtain k where "length (takeWhile isDot s) = 10 + k"
    using assms by (metis le_Suc_ex)
  ultimately have "takeWhile isDot s = replicate 10 CHR ''.'' @ replicate k CHR ''.''"
    by (simp add: replicate_add)
  then have "s = replicate 10 CHR ''.'' @ replicate k CHR ''.'' @ dropWhile isDot s"
    by (metis append.assoc takeWhile_dropWhile_id)
  moreover have "replicate 10 CHR ''.'' = ''..........''"
    by (simp add: numeral_eq_Suc)
  ultimately show ?thesis unfolding startsWith_iff by metis
qed

lemma removeDotRuns_id: "\<not> includesStr s ''..........'' \<Longrightarrow> removeDotRuns s = s"
proof (induction s rule: removeDotRuns.induct)
  case 1
  then show ?case by simp
next
  case (2 c cs)
  from 2(3) have ns: "\<not> startsWith (c # cs) ''..........''" and nc: "\<not> includesStr cs ''..........''"
    by auto
  from ns takeWhile_dots [of "c # cs"] have short: "\<not> 10 \<le> length (takeWhile isDot (c # cs))"
    by blast
  with 2(2) nc have "removeDotRuns cs = cs" by simp
  with short show ?case by simp
qed

lemma collapseWhitespace_id:
  assumes "\<forall>c \<in> set s. isSpace c \<longrightarrow> c = CHR '' ''" "\<not> includesStr s ''  ''"
  shows "collapseWhitespace s = s"
  using assms
proof (induction s rule: collapseWhitespace.induct)
  case 1
  then show ?case by simp
next
  case (2 c cs)
  from 2(4) have ns: "\<not> startsWith (c # cs) ''  ''" and nc: "\<not> includesStr cs ''  ''"
    by auto
  from 2(3) have sp: "\<forall>x \<in> set cs. isSpace x \<longrightarrow> x = CHR '' ''" by simp
  show ?case
  proof (cases "isSpace c")
    case False
    with 2(2) sp nc show ?thesis by simp
  next
    case True
    with 2(3) have c: "c = CHR '' ''" by simp
    have d: "dropWhile isSpace cs = cs"
    proof (cases cs)
      case Nil
      then show ?thesis by simp
    next
      case (Cons x xs)
      with ns c have "x \<noteq> CHR '' ''" by auto
      with sp Cons have "\<not> isSpace x" by auto
      with Cons show ?thesis by simp
    qed
    from 2(1) [OF True] d sp nc have "collapseWhitespace cs = cs" by simp
    with True c d show ?thesis by simp
  qed
qed

lemma removeUndefined_id: "\<not> includesStr s ''undefined'' \<Longrightarrow> removeUndefined s = s"
proof (induction s rule: removeUndefined.induct)
  case 1
  then show ?case by simp
next
  case (2 c cs)
  from 2(3) have ns: "\<not> startsWith (c # cs) ''undefined''" and nc: "\<not> includesStr cs ''undefined''"
    by auto
  from ns have "removeUndefined (c # cs) = c # removeUndefined cs"
    by (simp only: removeUndefined.simps if_False)
  with 2(2) [OF ns] nc show ?case by simp
qed

lemma collapseWhitespace_spaces:
  "x \<in> set (collapseWhitespace s) \<Longrightarrow> isSpace x \<Longrightarrow> x = CHR '' ''"
proof (induction s rule: collapseWhitespace.induct)
  case 1
  then show ?case by simp
next
  case (2 c cs)
  then show ?case by (cases "isSpace c") auto
qed

lemma set_removeUndefined: "set (removeUndefined s) \<subseteq> set s"
proof (induction s rule: removeUndefined.induct)
  case 1
  then show ?case by simp
next
  case (2 c cs)
  show ?case
  proof (cases "startsWith (c # cs) ''undefined''")
    case True
    with 2(1) have "set (removeUndefined (c # cs)) \<subseteq> set (drop 9 (c # cs))" by simp
    also have "\<dots> \<subseteq> set (c # cs)" by (rule set_drop_subset)
    finally show ?thesis .
  next
    case False
    with 2(2) show ?thesis by auto
  qed
qed

lemma set_trim: "set (trim s) \<subseteq> set s"
proof -
  have "set (trim s) = set (dropWhile isSpace (rev (dropWhile isSpace s)))"
    by (simp add: trim_def)
  also have "\<dots> \<subseteq> set (rev (dropWhile isSpace s))" by (auto dest: set_dropWhileD)
  also have "\<dots> \<subseteq> set s" by (auto dest: set_dropWhileD)
  finally show ?thesis .
qed

lemma trim_trim: "trim (trim s) = trim s"
proof -
  define w where "w = dropWhile isSpace s"
  define u where "u = rev (dropWhile isSpace (rev w))"
  have tu: "trim s = u" by (simp add: trim_def u_def w_def)
  have w: "w = u @ rev (takeWhile isSpace (rev w))"
    unfolding u_def
    by (simp only: rev_append [symmetric] takeWhile_dropWhile_id rev_rev_ident)
  have du: "dropWhile isSpace u = u"
  proof (cases u)
    case Nil
    then show ?thesis by simp
  next
    case (Cons a as)
    with w have "w \<noteq> []" "hd w = a" by (cases w; simp)+
    moreover have "w \<noteq> [] \<Longrightarrow> \<not> isSpace (hd w)"
      unfolding w_def by (rule hd_dropWhile)
    ultimately have "\<not> isSpace a" by simp
    with Cons show ?thesis by simp
  qed
  have "dropWhile isSpace (rev u) = rev u"
    by (simp add: u_def dropWhile_idem)
  with du have "trim u = u" by (simp add: trim_def)
  with tu show ?thesis by simp
qed

text \<open>
  Claim C2, as the code has it. Cleaning a cleaned text changes nothing, provided the
  cleaned text holds no \<open>undefined\<close>, no run of ten dots and no two spaces in a row:
  these are the three patterns that a later step of the cleaner can put together again
  after the step that removes them has run.
\<close>

theorem cleanContext_idempotent_when_settled:
  assumes u: "\<not> includesStr (cleanContext x) ''undefined''"
    and d: "\<not> includesStr (cleanContext x) ''..........''"
    and s: "\<not> includesStr (cleanContext x) ''  ''"
  shows "cleanContext (cleanContext x) = cleanContext x"
proof -
  define z where "z = filter isKept (removeUndefined (collapseWhitespace (removeDotRuns
       (removePageMarkers x))))"
  define y where "y = cleanContext x"
  have yz: "y = trim z" by (simp add: y_def z_def cleanContext_def)
  have kept: "\<forall>c \<in> set y. isKept c"
    using set_trim [of z] unfolding yz z_def by auto
  have "\<not> isKept CHR ''[''"
    by (simp add: isKept_def isWordChar_def isSpace_def)
  with kept have nb: "CHR ''['' \<notin> set y" by blast
  have "set y \<subseteq> set (collapseWhitespace (removeDotRuns (removePageMarkers x)))"
    using set_trim [of z] set_removeUndefined
      [of "collapseWhitespace (removeDotRuns (removePageMarkers x))"]
    unfolding yz z_def by auto
  then have sp: "\<forall>c \<in> set y. isSpace c \<longrightarrow> c = CHR '' ''"
    using collapseWhitespace_spaces by blast
  have 1: "removePageMarkers y = y" using nb by (rule removePageMarkers_id)
  have 2: "removeDotRuns y = y" using d unfolding y_def by (rule removeDotRuns_id)
  have 3: "collapseWhitespace y = y" using sp s unfolding y_def by (rule collapseWhitespace_id)
  have 4: "removeUndefined y = y" using u unfolding y_def by (rule removeUndefined_id)
  have 5: "filter isKept y = y" using kept by simp
  have 6: "trim y = y" unfolding yz by (rule trim_trim)
  have "cleanContext y = y"
    by (simp add: cleanContext_def 1 2 3 4 5 6)
  then show ?thesis by (simp add: y_def)
qed

text \<open>
  The theorem at a text with a page marker, a run of dots and runs of spaces.
\<close>

theorem cleanContext_idempotent_when_settled_witness:
  "\<not> includesStr (cleanContext ''  Paris [Page 3] is the   capital............ of France'')
      ''undefined'' \<and>
   \<not> includesStr (cleanContext ''  Paris [Page 3] is the   capital............ of France'')
      ''..........'' \<and>
   \<not> includesStr (cleanContext ''  Paris [Page 3] is the   capital............ of France'')
      ''  '' \<and>
   cleanContext ''  Paris [Page 3] is the   capital............ of France'' =
     ''Paris is the capital of France'' \<and>
   cleanContext (cleanContext ''  Paris [Page 3] is the   capital............ of France'') =
     cleanContext ''  Paris [Page 3] is the   capital............ of France''"
proof -
  have c: "cleanContext ''  Paris [Page 3] is the   capital............ of France'' =
     ''Paris is the capital of France''" by code_simp
  have u: "\<not> includesStr (cleanContext ''  Paris [Page 3] is the   capital............ of France'')
      ''undefined''" unfolding c by code_simp
  have d: "\<not> includesStr (cleanContext ''  Paris [Page 3] is the   capital............ of France'')
      ''..........''" unfolding c by code_simp
  have s: "\<not> includesStr (cleanContext ''  Paris [Page 3] is the   capital............ of France'')
      ''  ''" unfolding c by code_simp
  from c u d s cleanContext_idempotent_when_settled [OF u d s]
  show ?thesis by blast
qed

text \<open>
  Claim C2 as it is written fails. Removing \<open>undefined\<close> from \<open>undeundefinedfined\<close>
  leaves \<open>undefined\<close>, which a second cleaning removes; and removing \<open>&\<close> from
  \<open>R & D\<close> leaves two spaces, which a second cleaning makes one.
\<close>

theorem cleanContext_not_idempotent_counterexample:
  "cleanContext ''undeundefinedfined'' = ''undefined'' \<and>
   cleanContext (cleanContext ''undeundefinedfined'') = '''' \<and>
   cleanContext ''R & D'' = ''R  D'' \<and>
   cleanContext (cleanContext ''R & D'') = ''R D''"
  by code_simp

end
